theory Spec2Isabelle
  imports Complex_Main "HOL-Library.AList" "HOL-Library.Sublist"
begin

section \<open>Python values and failures\<close>

text \<open>
  The simulation is Python. Its integers are unbounded (\<open>int\<close>); its floats are read as
  exact real numbers (\<open>real\<close>), so rounding of the float arithmetic is not part of this
  development. Every exception the code can raise is a value of \<open>error\<close>; a function that
  may raise returns \<open>error + 'a\<close>. A function that contains a \<^verbatim>\<open>while\<close> loop that need not
  end returns \<open>'a result\<close>, where \<open>None\<close> means that the call does not return.
\<close>

datatype error =
    KeyError | ValueError | IndexError | TypeError | ZeroDivisionError
  | UnboundLocalError | AssertionError

type_synonym 'a result = "(error + 'a) option"

definition returns :: "'a \<Rightarrow> 'a result" where
  "returns x = Some (Inr x)"

definition raises :: "error \<Rightarrow> 'a result" where
  "raises e = Some (Inl e)"

definition lift :: "error + 'a \<Rightarrow> 'a result" where
  "lift r = Some r"

definition bind_result :: "'a result \<Rightarrow> ('a \<Rightarrow> 'b result) \<Rightarrow> 'b result" where
  "bind_result m f =
     (case m of None \<Rightarrow> None | Some (Inl e) \<Rightarrow> Some (Inl e) | Some (Inr x) \<Rightarrow> f x)"

definition bind_error :: "error + 'a \<Rightarrow> ('a \<Rightarrow> error + 'b) \<Rightarrow> error + 'b" where
  "bind_error m f = (case m of Inl e \<Rightarrow> Inl e | Inr x \<Rightarrow> f x)"

text \<open>\<^verbatim>\<open>int(x)\<close> on a float truncates towards zero.\<close>

definition py_int :: "real \<Rightarrow> int" where
  "py_int x = (if 0 \<le> x then \<lfloor>x\<rfloor> else \<lceil>x\<rceil>)"

text \<open>
  \<^verbatim>\<open>xs[:n]\<close> and \<^verbatim>\<open>xs[n:]\<close>: a negative bound counts from the end of the list and is
  clipped at the start.
\<close>

definition slice_to :: "int \<Rightarrow> 'a list \<Rightarrow> 'a list" where
  "slice_to n xs = (if 0 \<le> n then take (nat n) xs else take (nat (int (length xs) + n)) xs)"

definition slice_from :: "int \<Rightarrow> 'a list \<Rightarrow> 'a list" where
  "slice_from n xs = (if 0 \<le> n then drop (nat n) xs else drop (nat (int (length xs) + n)) xs)"

text \<open>\<^verbatim>\<open>xs.remove(x)\<close> deletes the first occurrence and raises ValueError when there is none.\<close>

definition list_remove :: "'a \<Rightarrow> 'a list \<Rightarrow> error + 'a list" where
  "list_remove x xs = (if x \<in> set xs then Inr (remove1 x xs) else Inl ValueError)"

text \<open>\<^verbatim>\<open>del xs[i]\<close> for an index \<open>i \<ge> 0\<close>; IndexError out of range.\<close>

definition list_del :: "nat \<Rightarrow> 'a list \<Rightarrow> error + 'a list" where
  "list_del i xs = (if i < length xs then Inr (take i xs @ drop (Suc i) xs) else Inl IndexError)"

text \<open>\<^verbatim>\<open>d[k]\<close> on an insertion-ordered dictionary kept as an association list.\<close>

definition dict_get :: "('k \<times> 'v) list \<Rightarrow> 'k \<Rightarrow> error + 'v" where
  "dict_get d k = (case map_of d k of None \<Rightarrow> Inl KeyError | Some v \<Rightarrow> Inr v)"

section \<open>Attraction (attraction.py)\<close>

record attraction_characteristics =
  c_name :: string
  c_run_time :: int
  c_hourly_throughput :: int
  c_popularity :: int
  c_child_eligible :: bool
  c_adult_eligible :: bool
  c_expedited_queue :: bool
  c_expedited_queue_ratio :: real

text \<open>
  The object's attributes and its \<^verbatim>\<open>state\<close> and \<^verbatim>\<open>history\<close> dictionaries. Agents are
  referred to by their ids. The four history dictionaries map a minute to the value
  stored for it.
\<close>

record attraction =
  att_name :: string
  run_time :: int
  capacity :: real
  att_popularity :: int
  child_eligible :: bool
  adult_eligible :: bool
  run_time_remaining :: int
  expedited_queue :: bool
  exp_queue_ratio :: real
  exp_queue_passes :: real
  agents_in_attraction :: "nat list"
  queue :: "nat list"
  exp_queue :: "nat list"
  exp_queue_passes_distributed :: int
  queue_length :: "int \<rightharpoonup> nat"
  queue_wait_time :: "int \<rightharpoonup> real"
  exp_queue_length :: "int \<rightharpoonup> nat"
  exp_queue_wait_time :: "int \<rightharpoonup> real"

definition initialize_attraction :: "attraction_characteristics \<Rightarrow> attraction" where
  "initialize_attraction c =
     \<lparr> att_name = c_name c,
       run_time = c_run_time c,
       capacity = real_of_int (c_hourly_throughput c) * (real_of_int (c_run_time c) / 60),
       att_popularity = c_popularity c,
       child_eligible = c_child_eligible c,
       adult_eligible = c_adult_eligible c,
       run_time_remaining = 0,
       expedited_queue = c_expedited_queue c,
       exp_queue_ratio = c_expedited_queue_ratio c,
       exp_queue_passes = 0,
       agents_in_attraction = [],
       queue = [],
       exp_queue = [],
       exp_queue_passes_distributed = 0,
       queue_length = Map.empty,
       queue_wait_time = Map.empty,
       exp_queue_length = Map.empty,
       exp_queue_wait_time = Map.empty \<rparr>"

text \<open>\<^verbatim>\<open>Attraction.__init__\<close>: the popularity check, then \<^verbatim>\<open>initialize_attraction\<close>.\<close>

definition new_attraction :: "attraction_characteristics \<Rightarrow> error + attraction" where
  "new_attraction c =
     (if c_popularity c < 1 \<or> c_popularity c > 10 then Inl AssertionError
      else Inr (initialize_attraction c))"

text \<open>
  The \<^verbatim>\<open>while\<close> loop of \<^verbatim>\<open>get_wait_time\<close>; the result is the final \<^verbatim>\<open>runs\<close>. The standby
  length becomes a float in the loop, the expedited length stays an integer.
\<close>

partial_function (option) wait_time_loop ::
  "real \<Rightarrow> int \<Rightarrow> real \<Rightarrow> real \<Rightarrow> int \<Rightarrow> int \<Rightarrow> int option" where
  "wait_time_loop cap exp_seats standby_seats queue_len exp_queue_len runs =
     (if queue_len \<ge> cap then
        (if exp_queue_len > exp_seats then
           wait_time_loop cap exp_seats standby_seats
             (if queue_len > standby_seats then queue_len - standby_seats else 0)
             (exp_queue_len - exp_seats) (runs + 1)
         else
           wait_time_loop cap exp_seats standby_seats
             (queue_len - (cap - real_of_int exp_queue_len)) 0 (runs + 1))
      else Some runs)"

text \<open>The loop of \<^verbatim>\<open>get_exp_wait_time\<close>: the same body, run while the expedited length
  is at least the capacity.\<close>

partial_function (option) exp_wait_time_loop ::
  "real \<Rightarrow> int \<Rightarrow> real \<Rightarrow> real \<Rightarrow> int \<Rightarrow> int \<Rightarrow> int option" where
  "exp_wait_time_loop cap exp_seats standby_seats queue_len exp_queue_len runs =
     (if real_of_int exp_queue_len \<ge> cap then
        (if exp_queue_len > exp_seats then
           exp_wait_time_loop cap exp_seats standby_seats
             (if queue_len > standby_seats then queue_len - standby_seats else 0)
             (exp_queue_len - exp_seats) (runs + 1)
         else
           exp_wait_time_loop cap exp_seats standby_seats
             (queue_len - (cap - real_of_int exp_queue_len)) 0 (runs + 1))
      else Some runs)"

definition get_wait_time :: "attraction \<Rightarrow> real result" where
  "get_wait_time a =
     (if expedited_queue a then
        (let queue_len = real (length (queue a));
             exp_queue_len = int (length (exp_queue a));
             exp_seats = py_int (capacity a * exp_queue_ratio a);
             standby_seats = capacity a - real_of_int exp_seats
         in case wait_time_loop (capacity a) exp_seats standby_seats queue_len exp_queue_len 0 of
              None \<Rightarrow> None
            | Some runs \<Rightarrow>
                returns (real_of_int (runs * run_time a + run_time_remaining a)))
      else if capacity a = 0 then raises ZeroDivisionError
      else returns (real_of_int \<lfloor>real (length (queue a)) / capacity a\<rfloor>
                      * real_of_int (run_time a) + real_of_int (run_time_remaining a)))"

definition get_exp_wait_time :: "attraction \<Rightarrow> int option" where
  "get_exp_wait_time a =
     (if expedited_queue a then
        (let queue_len = real (length (queue a));
             exp_queue_len = int (length (exp_queue a));
             exp_seats = py_int (capacity a * exp_queue_ratio a);
             standby_seats = capacity a - real_of_int exp_seats
         in case exp_wait_time_loop (capacity a) exp_seats standby_seats queue_len exp_queue_len 0 of
              None \<Rightarrow> None
            | Some runs \<Rightarrow> Some (runs * run_time a + run_time_remaining a))
      else Some 0)"

definition add_to_queue :: "attraction \<Rightarrow> nat \<Rightarrow> attraction" where
  "add_to_queue a agent_id = a\<lparr>queue := queue a @ [agent_id]\<rparr>"

text \<open>\<^verbatim>\<open>add_to_exp_queue\<close> returns the estimate together with the changed attraction.\<close>

definition add_to_exp_queue :: "attraction \<Rightarrow> nat \<Rightarrow> (attraction \<times> int) option" where
  "add_to_exp_queue a agent_id =
     (let a' = a\<lparr>exp_queue := exp_queue a @ [agent_id]\<rparr>
      in case get_exp_wait_time a' of None \<Rightarrow> None
         | Some expedited_wait_time \<Rightarrow> Some (a', expedited_wait_time))"

definition remove_pass :: "attraction \<Rightarrow> attraction" where
  "remove_pass a =
     a\<lparr>exp_queue_passes := exp_queue_passes a - 1,
       exp_queue_passes_distributed := exp_queue_passes_distributed a + 1\<rparr>"

definition return_pass :: "attraction \<Rightarrow> nat \<Rightarrow> error + attraction" where
  "return_pass a agent_id =
     (case list_remove agent_id (exp_queue a) of
        Inl e \<Rightarrow> Inl e
      | Inr q \<Rightarrow>
          Inr (a\<lparr>exp_queue_passes := exp_queue_passes a + 1,
                 exp_queue_passes_distributed := exp_queue_passes_distributed a - 1,
                 exp_queue := q\<rparr>))"

text \<open>
  The pass budget that \<^verbatim>\<open>step\<close> recomputes first. \<^verbatim>\<open>park_close\<close> is \<open>None\<close> while the
  park has no closing minute; comparing the time with it raises TypeError, and
  \<^verbatim>\<open>60/self.run_time\<close> raises ZeroDivisionError for a run time of zero.
\<close>

definition refresh_passes :: "attraction \<Rightarrow> int \<Rightarrow> int option \<Rightarrow> error + attraction" where
  "refresh_passes a time park_close =
     (if expedited_queue a then
        (case park_close of
           None \<Rightarrow> Inl TypeError
         | Some pc \<Rightarrow>
             if time < pc then
               (let remaining_operating_hours = (pc - time) div 60;
                    passed_operating_hours = time div 60
                in if run_time a = 0 then Inl ZeroDivisionError
                   else
                     let rate = capacity a * (60 / real_of_int (run_time a)) * exp_queue_ratio a
                     in Inr (a\<lparr>exp_queue_passes :=
                               rate * real_of_int remaining_operating_hours
                               - max (real_of_int (exp_queue_passes_distributed a)
                                        - rate * real_of_int passed_operating_hours) 0\<rparr>))
             else Inr (a\<lparr>exp_queue_passes := 0\<rparr>))
      else Inr a)"

text \<open>The seats of one load, as \<^verbatim>\<open>step\<close> computes them when a run is complete.\<close>

definition max_exp_queue_agents :: "attraction \<Rightarrow> int" where
  "max_exp_queue_agents a = py_int (capacity a * exp_queue_ratio a)"

definition max_queue_agents :: "attraction \<Rightarrow> int" where
  "max_queue_agents a =
     (if int (length (exp_queue a)) < max_exp_queue_agents a
      then py_int (capacity a - real (length (exp_queue a)))
      else py_int (capacity a - real_of_int (max_exp_queue_agents a)))"

definition expedited_agents_to_load :: "attraction \<Rightarrow> nat list" where
  "expedited_agents_to_load a = slice_to (max_exp_queue_agents a) (exp_queue a)"

definition agents_to_load :: "attraction \<Rightarrow> nat list" where
  "agents_to_load a = slice_to (max_queue_agents a) (queue a)"

text \<open>\<^verbatim>\<open>step\<close> returns the changed attraction, the exiting agents and the loaded agents.\<close>

definition attraction_step ::
  "attraction \<Rightarrow> int \<Rightarrow> int option \<Rightarrow> error + (attraction \<times> nat list \<times> nat list)" where
  "attraction_step a0 time park_close =
     (case refresh_passes a0 time park_close of
        Inl e \<Rightarrow> Inl e
      | Inr a \<Rightarrow>
          if run_time_remaining a = 0 then
            (let exiting_agents = agents_in_attraction a;
                 loaded = expedited_agents_to_load a @ agents_to_load a
             in Inr (a\<lparr>agents_in_attraction := loaded,
                       run_time_remaining := run_time a,
                       exp_queue := slice_from (max_exp_queue_agents a) (exp_queue a),
                       queue := slice_from (max_queue_agents a) (queue a)\<rparr>,
                     exiting_agents, loaded))
          else Inr (a, [], []))"

definition attraction_pass_time :: "attraction \<Rightarrow> attraction" where
  "attraction_pass_time a = a\<lparr>run_time_remaining := run_time_remaining a - 1\<rparr>"

definition attraction_store_history :: "attraction \<Rightarrow> int \<Rightarrow> attraction result" where
  "attraction_store_history a time =
     bind_result (get_wait_time a) (\<lambda>w.
       case get_exp_wait_time a of
         None \<Rightarrow> None
       | Some ew \<Rightarrow>
           returns (a\<lparr>queue_length := (queue_length a)(time \<mapsto> length (queue a)),
                      queue_wait_time := (queue_wait_time a)(time \<mapsto> w),
                      exp_queue_length := (exp_queue_length a)(time \<mapsto> length (exp_queue a)),
                      exp_queue_wait_time := (exp_queue_wait_time a)(time \<mapsto> real_of_int ew)\<rparr>))"

text \<open>
  A reachable attraction is the fresh one after any sequence of calls of its methods that
  all return.
\<close>

datatype attraction_call =
    Add_to_queue nat | Add_to_exp_queue nat | Remove_pass | Return_pass nat
  | Step int "int option" | Pass_time | Store_history int

fun apply_call :: "attraction \<Rightarrow> attraction_call \<Rightarrow> attraction result" where
  "apply_call a (Add_to_queue agent_id) = returns (add_to_queue a agent_id)"
| "apply_call a (Add_to_exp_queue agent_id) =
     (case add_to_exp_queue a agent_id of None \<Rightarrow> None | Some (a', w) \<Rightarrow> returns a')"
| "apply_call a Remove_pass = returns (remove_pass a)"
| "apply_call a (Return_pass agent_id) = lift (return_pass a agent_id)"
| "apply_call a (Step time park_close) =
     (case attraction_step a time park_close of
        Inl e \<Rightarrow> raises e | Inr (a', exiting_agents, loaded_agents) \<Rightarrow> returns a')"
| "apply_call a Pass_time = returns (attraction_pass_time a)"
| "apply_call a (Store_history time) = attraction_store_history a time"

fun apply_calls :: "attraction \<Rightarrow> attraction_call list \<Rightarrow> attraction result" where
  "apply_calls a [] = returns a"
| "apply_calls a (c # cs) = bind_result (apply_call a c) (\<lambda>a'. apply_calls a' cs)"



text \<open>A ride with an expedited queue, and a ride without one that has 25 agents in its
  standby queue three minutes before its run ends.\<close>

definition example_ride :: attraction_characteristics where
  "example_ride =
     \<lparr> c_name = ''Coaster'', c_run_time = 10, c_hourly_throughput = 60, c_popularity = 5,
       c_child_eligible = True, c_adult_eligible = True, c_expedited_queue = True,
       c_expedited_queue_ratio = 1 / 2 \<rparr>"

definition example_calls :: "attraction_call list" where
  "example_calls = [Add_to_exp_queue 7, Add_to_queue 1, Add_to_queue 2, Step 0 (Some 600)]"

definition example_loaded :: attraction where
  "example_loaded =
     (initialize_attraction example_ride)
        \<lparr>agents_in_attraction := [7, 1, 2], run_time_remaining := 10, exp_queue_passes := 300\<rparr>"

text \<open>
  After the first load a pass is issued to agent 9, the attraction steps at the closing
  minute 600, and agent 9 gives the pass back.
\<close>

definition example_late_return :: "attraction_call list" where
  "example_late_return =
     example_calls @ [Remove_pass, Add_to_exp_queue 9, Step 600 (Some 600), Return_pass 9]"

definition example_standby_ride :: attraction where
  "example_standby_ride =
     (initialize_attraction (example_ride\<lparr>c_expedited_queue := False\<rparr>))
        \<lparr>queue := [0..<25], run_time_remaining := 3\<rparr>"

section \<open>Randomness\<close>

text \<open>
  The code draws from Python's module-level generator \<^verbatim>\<open>random\<close>, from numpy generators
  made by \<^verbatim>\<open>default_rng(seed)\<close> for one draw each, and from numpy's global generator. The
  libraries are not part of the repository; what they return is a parameter:
  \<^item> \<open>uniform s k\<close>: the \<open>k\<close>-th \<^verbatim>\<open>random.random()\<close> after \<^verbatim>\<open>random.seed(s)\<close>;
  \<^item> \<open>choice s k n\<close>: the index that the \<open>k\<close>-th draw after \<^verbatim>\<open>random.seed(s)\<close> picks when it
    is a \<^verbatim>\<open>random.choice\<close> on a sequence of length \<open>n\<close>;
  \<^item> \<open>normal_seeded s loc scale\<close>: \<^verbatim>\<open>default_rng(s).normal(loc, scale, 1)[0]\<close>;
  \<^item> \<open>poisson_seeded s lam\<close>: \<^verbatim>\<open>list(default_rng(s).poisson(lam=lam, size=60))\<close>;
  \<^item> \<open>normal_global k loc scale\<close>: the \<open>k\<close>-th \<^verbatim>\<open>np.random.normal(loc, scale, 1)[0]\<close> of the
    process; numpy seeds this generator from the operating system, so it is the one
    component that differs from one run to the next.
  The state of the module-level generator is the last seed together with the number of
  draws since; the state of numpy's global generator is its number of draws.
\<close>

record random_source =
  uniform :: "int \<Rightarrow> nat \<Rightarrow> real"
  choice :: "int \<Rightarrow> nat \<Rightarrow> nat \<Rightarrow> nat"
  normal_seeded :: "int \<Rightarrow> real \<Rightarrow> real \<Rightarrow> real"
  poisson_seeded :: "int \<Rightarrow> real \<Rightarrow> nat list"
  normal_global :: "nat \<Rightarrow> real \<Rightarrow> real \<Rightarrow> real"

type_synonym random_state = "int \<times> nat"

text \<open>\<^verbatim>\<open>random.uniform(a, b)\<close> is \<^verbatim>\<open>a + (b-a) * self.random()\<close>.\<close>

definition random_uniform :: "random_source \<Rightarrow> random_state \<Rightarrow> real \<Rightarrow> real \<Rightarrow> real \<times> random_state" where
  "random_uniform R st a b = (a + (b - a) * uniform R (fst st) (snd st), (fst st, Suc (snd st)))"

section \<open>Activity (activity.py)\<close>

record activity_characteristics =
  ac_name :: string
  ac_popularity :: int
  ac_mean_time :: real

record activity =
  act_name :: string
  act_popularity :: int
  mean_time :: real
  act_random_seed :: "int option"
  visitors :: "nat list"
  visitor_time_remaining :: "int list"
  total_vistors :: "int \<rightharpoonup> nat"

definition initialize_activity :: "activity_characteristics \<Rightarrow> int option \<Rightarrow> activity" where
  "initialize_activity c seed =
     \<lparr> act_name = ac_name c,
       act_popularity = ac_popularity c,
       mean_time = ac_mean_time c,
       act_random_seed = seed,
       visitors = [],
       visitor_time_remaining = [],
       total_vistors = Map.empty \<rparr>"

definition new_activity :: "activity_characteristics \<Rightarrow> int option \<Rightarrow> error + activity" where
  "new_activity c seed =
     (if ac_popularity c < 0 \<or> ac_popularity c > 10 then Inl AssertionError
      else Inr (initialize_activity c seed))"

text \<open>\<^verbatim>\<open>min(xs)\<close> of a non-empty list.\<close>

fun py_min :: "int list \<Rightarrow> int" where
  "py_min [] = 0"
| "py_min [x] = x"
| "py_min (x # y # ys) = min x (py_min (y # ys))"

text \<open>
  \<^verbatim>\<open>if self.random_seed:\<close> holds for a seed that is neither \<^verbatim>\<open>None\<close> nor \<open>0\<close>. The drawn stay
  is \<^verbatim>\<open>int(max(draw, 1))\<close>; the second component of the result is the state of numpy's
  global generator.
\<close>

definition drawn_stay_time :: "random_source \<Rightarrow> nat \<Rightarrow> activity \<Rightarrow> nat \<Rightarrow> int \<times> nat" where
  "drawn_stay_time R np a agent_id =
     (case act_random_seed a of
        Some seed \<Rightarrow>
          if seed \<noteq> 0 then
            (py_int (max (normal_seeded R (seed + int agent_id) (mean_time a) (mean_time a / 2)) 1), np)
          else (py_int (max (normal_global R np (mean_time a) (mean_time a / 2)) 1), Suc np)
      | None \<Rightarrow> (py_int (max (normal_global R np (mean_time a) (mean_time a / 2)) 1), Suc np))"

definition add_to_activity ::
  "random_source \<Rightarrow> nat \<Rightarrow> activity \<Rightarrow> nat \<Rightarrow> int list \<Rightarrow> activity \<times> nat" where
  "add_to_activity R np a agent_id expedited_return_time =
     (let (stay_time0, np') = drawn_stay_time R np a agent_id;
          stay_time = (if expedited_return_time \<noteq> []
                       then min (max 1 (py_min expedited_return_time)) stay_time0
                       else stay_time0)
      in (a\<lparr>visitors := visitors a @ [agent_id],
            visitor_time_remaining := visitor_time_remaining a @ [stay_time]\<rparr>, np'))"

text \<open>\<^verbatim>\<open>xs.index(x)\<close>: the first position of \<open>x\<close>, ValueError when there is none.\<close>

fun list_index :: "'a \<Rightarrow> 'a list \<Rightarrow> error + nat" where
  "list_index x [] = Inl ValueError"
| "list_index x (y # ys) =
     (if y = x then Inr 0 else case list_index x ys of Inl e \<Rightarrow> Inl e | Inr i \<Rightarrow> Inr (Suc i))"

definition force_exit :: "activity \<Rightarrow> nat \<Rightarrow> error + activity" where
  "force_exit a agent_id =
     (case list_index agent_id (visitors a) of
        Inl e \<Rightarrow> Inl e
      | Inr ind \<Rightarrow>
          (case list_del ind (visitors a) of
             Inl e \<Rightarrow> Inl e
           | Inr vs \<Rightarrow>
               (case list_del ind (visitor_time_remaining a) of
                  Inl e \<Rightarrow> Inl e
                | Inr ts \<Rightarrow> Inr (a\<lparr>visitors := vs, visitor_time_remaining := ts\<rparr>))))"

text \<open>
  \<^verbatim>\<open>step\<close>: the comprehension reads \<^verbatim>\<open>visitor_time_remaining[ind]\<close> for every visitor, then
  the selected entries are deleted from the highest index down; the ids are returned in
  that order.
\<close>

fun delete_visitors :: "activity \<Rightarrow> nat list \<Rightarrow> error + activity" where
  "delete_visitors a [] = Inr a"
| "delete_visitors a (ind # inds) =
     (case list_del ind (visitors a) of
        Inl e \<Rightarrow> Inl e
      | Inr vs \<Rightarrow>
          (case list_del ind (visitor_time_remaining a) of
             Inl e \<Rightarrow> Inl e
           | Inr ts \<Rightarrow> delete_visitors (a\<lparr>visitors := vs, visitor_time_remaining := ts\<rparr>) inds))"

definition activity_step :: "activity \<Rightarrow> int \<Rightarrow> error + (activity \<times> nat list)" where
  "activity_step a time =
     (if length (visitor_time_remaining a) < length (visitors a) then Inl IndexError
      else
        (let exiting_agents =
               rev (filter (\<lambda>(ind, agent_id). visitor_time_remaining a ! ind = 0)
                      (zip [0..<length (visitors a)] (visitors a)))
         in case delete_visitors a (map fst exiting_agents) of
              Inl e \<Rightarrow> Inl e
            | Inr a' \<Rightarrow> Inr (a', map snd exiting_agents)))"

definition activity_pass_time :: "activity \<Rightarrow> activity" where
  "activity_pass_time a =
     a\<lparr>visitor_time_remaining := map (\<lambda>visitor_time. visitor_time - 1) (visitor_time_remaining a)\<rparr>"

definition activity_store_history :: "activity \<Rightarrow> int \<Rightarrow> activity" where
  "activity_store_history a time = a\<lparr>total_vistors := (total_vistors a)(time \<mapsto> length (visitors a))\<rparr>"

section \<open>Agent (agent.py, behavior_reference.py)\<close>

record behavior_parameters =
  bp_stay_time_preference :: real
  bp_allow_repeats :: bool
  bp_attraction_preference :: real
  bp_wait_threshold :: int
  percent_no_child_rides :: real
  percent_no_adult_rides :: real
  percent_no_preference :: real

definition BEHAVIOR_ARCHETYPE_PARAMETERS :: "(string \<times> behavior_parameters) list" where
  "BEHAVIOR_ARCHETYPE_PARAMETERS =
     [(''ride_enthusiast'',
        \<lparr>bp_stay_time_preference = 540, bp_allow_repeats = True, bp_attraction_preference = 6 / 10,
         bp_wait_threshold = 480, percent_no_child_rides = 0, percent_no_adult_rides = 1,
         percent_no_preference = 0\<rparr>),
      (''ride_favorer'',
        \<lparr>bp_stay_time_preference = 480, bp_allow_repeats = True, bp_attraction_preference = 5 / 10,
         bp_wait_threshold = 420, percent_no_child_rides = 0, percent_no_adult_rides = 1,
         percent_no_preference = 0\<rparr>),
      (''park_tourer'',
        \<lparr>bp_stay_time_preference = 420, bp_allow_repeats = False, bp_attraction_preference = 4 / 10,
         bp_wait_threshold = 360, percent_no_child_rides = 0, percent_no_adult_rides = 1,
         percent_no_preference = 0\<rparr>),
      (''park_visitor'',
        \<lparr>bp_stay_time_preference = 360, bp_allow_repeats = False, bp_attraction_preference = 3 / 10,
         bp_wait_threshold = 240, percent_no_child_rides = 0, percent_no_adult_rides = 1,
         percent_no_preference = 0\<rparr>),
      (''activity_favorer'',
        \<lparr>bp_stay_time_preference = 300, bp_allow_repeats = False, bp_attraction_preference = 2 / 10,
         bp_wait_threshold = 180, percent_no_child_rides = 0, percent_no_adult_rides = 1,
         percent_no_preference = 0\<rparr>),
      (''activity_enthusiast'',
        \<lparr>bp_stay_time_preference = 240, bp_allow_repeats = False, bp_attraction_preference = 2 / 10,
         bp_wait_threshold = 90, percent_no_child_rides = 0, percent_no_adult_rides = 1,
         percent_no_preference = 0\<rparr>)]"

text \<open>
  The agent's attributes, its \<^verbatim>\<open>state\<close> dictionary and its \<^verbatim>\<open>behavior\<close> dictionary. The
  per-attraction history holds \<^verbatim>\<open>times_completed\<close>, the per-activity history holds
  \<^verbatim>\<open>times_visited\<close> and \<^verbatim>\<open>time_spent\<close>. The text log is output only and is left out.
\<close>

record agent =
  agent_id :: nat
  agent_random_seed :: int
  arrival_time :: "int option"
  exit_time :: "int option"
  within_park :: bool
  current_location :: "string option"
  current_action :: "string option"
  time_spent_at_current_location :: int
  expedited_return_time :: "int list"
  expedited_pass :: "string list"
  expedited_pass_ability :: bool
  exp_wait_threshold :: int
  exp_limit :: int
  state_attractions :: "(string \<times> int) list"
  state_activities :: "(string \<times> int \<times> int) list"
  age_class :: string
  archetype :: string
  stay_time_preference :: int
  allow_repeats :: bool
  attraction_preference :: real
  wait_threshold :: int

text \<open>The keys of a dictionary comprehension over a list of names, in insertion order.\<close>

definition dict_keys :: "string list \<Rightarrow> string list" where
  "dict_keys names = rev (remdups (rev names))"

text \<open>
  \<^verbatim>\<open>select_behavior_archetype\<close>, \<^verbatim>\<open>select_age_class\<close> and \<^verbatim>\<open>select_activity_decision\<close> share
  one loop: the first key whose running sum of weights exceeds the draw, \<^verbatim>\<open>None\<close> when
  there is none.
\<close>

fun first_below :: "(string \<times> real) list \<Rightarrow> real \<Rightarrow> real \<Rightarrow> string option" where
  "first_below [] rng floor_sum = None"
| "first_below ((key, weight) # rest) rng floor_sum =
     (if rng < floor_sum + weight then Some key else first_below rest rng (floor_sum + weight))"

definition select_behavior_archetype ::
  "random_source \<Rightarrow> random_state \<Rightarrow> (string \<times> real) list \<Rightarrow> string option \<times> random_state" where
  "select_behavior_archetype R st behavior_archetype_distribution =
     (let (rng, st') = random_uniform R st 0 (sum_list (map snd behavior_archetype_distribution))
      in (first_below behavior_archetype_distribution rng 0, st'))"

definition select_age_class ::
  "random_source \<Rightarrow> random_state \<Rightarrow> behavior_parameters \<Rightarrow> string option \<times> random_state" where
  "select_age_class R st behavior_archetype_dict =
     (let age_class_distribution =
            [(''no_child_rides'', percent_no_child_rides behavior_archetype_dict),
             (''no_adult_rides'', percent_no_adult_rides behavior_archetype_dict),
             (''no_preference'', percent_no_preference behavior_archetype_dict)];
          (rng, st') = random_uniform R st 0 (sum_list (map snd age_class_distribution))
      in (first_below age_class_distribution rng 0, st'))"

text \<open>\<^verbatim>\<open>Agent.__init__\<close> checks the table of archetypes.\<close>

definition age_class_sum_ok :: "behavior_parameters \<Rightarrow> bool" where
  "age_class_sum_ok b \<longleftrightarrow>
     98 / 100 \<le> percent_no_child_rides b + percent_no_adult_rides b + percent_no_preference b
     \<and> percent_no_child_rides b + percent_no_adult_rides b + percent_no_preference b \<le> 1"

definition initialize_agent ::
  "random_source \<Rightarrow> random_state \<Rightarrow> int \<Rightarrow> (string \<times> real) list \<Rightarrow> bool \<Rightarrow> int \<Rightarrow> int \<Rightarrow> nat
     \<Rightarrow> string list \<Rightarrow> string list \<Rightarrow> error + (agent \<times> random_state)" where
  "initialize_agent R st seed behavior_archetype_distribution exp_ability exp_wait_thr exp_lim
       new_id attraction_names activity_names =
     (if \<not> list_all (\<lambda>(behavior_type, behavior_dict). age_class_sum_ok behavior_dict)
             BEHAVIOR_ARCHETYPE_PARAMETERS
      then Inl AssertionError
      else
        (let (behavior_archetype, st1) = select_behavior_archetype R st behavior_archetype_distribution
         in case behavior_archetype of
              None \<Rightarrow> Inl KeyError
            | Some arch \<Rightarrow>
                (case map_of BEHAVIOR_ARCHETYPE_PARAMETERS arch of
                   None \<Rightarrow> Inl KeyError
                 | Some parameters \<Rightarrow>
                     (let (selected_age_class, st2) = select_age_class R st1 parameters
                      in case selected_age_class of
                           None \<Rightarrow> Inl AssertionError
                         | Some ac \<Rightarrow>
                             Inr (\<lparr> agent_id = new_id,
                                    agent_random_seed = seed,
                                    arrival_time = None,
                                    exit_time = None,
                                    within_park = False,
                                    current_location = None,
                                    current_action = None,
                                    time_spent_at_current_location = 0,
                                    expedited_return_time = [],
                                    expedited_pass = [],
                                    expedited_pass_ability = exp_ability,
                                    exp_wait_threshold = exp_wait_thr,
                                    exp_limit = exp_lim,
                                    state_attractions = map (\<lambda>n. (n, 0)) (dict_keys attraction_names),
                                    state_activities = map (\<lambda>n. (n, 0, 0)) (dict_keys activity_names),
                                    age_class = ac,
                                    archetype = arch,
                                    stay_time_preference =
                                      py_int (max (normal_seeded R (seed + int new_id)
                                                     (bp_stay_time_preference parameters)
                                                     (bp_stay_time_preference parameters / 4)) 0),
                                    allow_repeats = bp_allow_repeats parameters,
                                    attraction_preference = bp_attraction_preference parameters,
                                    wait_threshold = bp_wait_threshold parameters \<rparr>, st2)))))"

definition arrive_at_park :: "agent \<Rightarrow> int \<Rightarrow> agent" where
  "arrive_at_park ag time =
     ag\<lparr>within_park := True, arrival_time := Some time, current_location := Some ''gate'',
        current_action := Some ''idling'', time_spent_at_current_location := 0\<rparr>"

text \<open>
  \<^verbatim>\<open>decide_to_leave_park\<close>: the draw is the first standard normal of the generator seeded
  with seed + id + time, times 60. An arrival time of \<^verbatim>\<open>None\<close> cannot be subtracted.
\<close>

definition decide_to_leave_park ::
  "random_source \<Rightarrow> agent \<Rightarrow> int \<Rightarrow> error + (string option \<times> string option)" where
  "decide_to_leave_park R ag time =
     (case arrival_time ag of
        None \<Rightarrow> Inl TypeError
      | Some arrived \<Rightarrow>
          if time \<noteq> arrived then
            (let actual_preference_value = (time - arrived) - stay_time_preference ag;
                 normal_coinflip =
                   normal_seeded R (agent_random_seed ag + int (agent_id ag) + time) 0 1 * 60
             in if real_of_int actual_preference_value > normal_coinflip
                then Inr (Some ''leaving'', Some ''gate'')
                else Inr (None, None))
          else Inr (None, None))"

text \<open>The age filter reads \<^verbatim>\<open>attractions_dict[attraction]\<close> for every candidate.\<close>

fun age_filter ::
  "(attraction \<Rightarrow> bool) \<Rightarrow> (string \<times> attraction) list \<Rightarrow> string list \<Rightarrow> error + string list" where
  "age_filter keep attractions_dict [] = Inr []"
| "age_filter keep attractions_dict (attraction # rest) =
     (case map_of attractions_dict attraction of
        None \<Rightarrow> Inl KeyError
      | Some a \<Rightarrow>
          (case age_filter keep attractions_dict rest of
             Inl e \<Rightarrow> Inl e
           | Inr kept \<Rightarrow> Inr (if keep a then attraction # kept else kept)))"

definition age_class_filter ::
  "agent \<Rightarrow> (string \<times> attraction) list \<Rightarrow> string list \<Rightarrow> error + string list" where
  "age_class_filter ag attractions_dict valid_attractions =
     (if age_class ag = ''no_child_rides'' then
        age_filter (\<lambda>a. (child_eligible a \<and> adult_eligible a) \<or> (adult_eligible a \<and> \<not> child_eligible a))
          attractions_dict valid_attractions
      else if age_class ag = ''no_adult_rides'' then
        age_filter (\<lambda>a. (child_eligible a \<and> adult_eligible a) \<or> (child_eligible a \<and> \<not> adult_eligible a))
          attractions_dict valid_attractions
      else Inr valid_attractions)"

definition decide_attraction_or_activity ::
  "random_source \<Rightarrow> random_state \<Rightarrow> agent \<Rightarrow> (string \<times> attraction) list
     \<Rightarrow> error + ((string \<times> string list) \<times> random_state)" where
  "decide_attraction_or_activity R st ag attractions_dict =
     (let (coinflip, st') = random_uniform R st 0 1
      in if coinflip \<le> attraction_preference ag then
           (case age_class_filter ag attractions_dict
                   (if allow_repeats ag then
                      filter (\<lambda>attraction. attraction \<notin> set (expedited_pass ag))
                        (map fst attractions_dict)
                    else
                      map fst
                        (filter (\<lambda>(attraction, times_completed).
                                   times_completed = 0 \<and> attraction \<notin> set (expedited_pass ag))
                           (state_attractions ag))) of
              Inl e \<Rightarrow> Inl e
            | Inr valid_attractions \<Rightarrow>
                if length valid_attractions = 0 then Inr ((''activity'', []), st')
                else Inr ((''attraction'', valid_attractions), st'))
         else Inr ((''activity'', []), st'))"

text \<open>The wait times of all attractions, in the order of the dictionary.\<close>

fun attraction_wait_times :: "(string \<times> attraction) list \<Rightarrow> (string \<times> real) list result" where
  "attraction_wait_times [] = returns []"
| "attraction_wait_times ((attraction_name, a) # rest) =
     bind_result (get_wait_time a) (\<lambda>w.
       bind_result (attraction_wait_times rest) (\<lambda>ws. returns ((attraction_name, w) # ws)))"

text \<open>
  The inner \<^verbatim>\<open>for\<close> loop of \<^verbatim>\<open>select_attraction_decision\<close>: \<^verbatim>\<open>desired_attraction\<close> is assigned
  when the draw lies in a bucket and keeps its earlier value (or stays unbound) otherwise.
\<close>

fun weighted_pick ::
  "(string \<times> int) list \<Rightarrow> real \<Rightarrow> real \<Rightarrow> real \<Rightarrow> string option \<Rightarrow> string option" where
  "weighted_pick [] rng floor_sum ceiling_sum desired_attraction = desired_attraction"
| "weighted_pick ((attraction, attraction_weight) # rest) rng floor_sum ceiling_sum desired_attraction =
     weighted_pick rest rng (floor_sum + real_of_int attraction_weight)
       (ceiling_sum + real_of_int attraction_weight)
       (if floor_sum < rng \<and> rng \<le> ceiling_sum + real_of_int attraction_weight
        then Some attraction else desired_attraction)"

text \<open>
  The \<^verbatim>\<open>while\<close> loop of \<^verbatim>\<open>select_attraction_decision\<close>. Every round that does not end the
  loop removes the desired attraction from \<^verbatim>\<open>valid_attractions\<close> or raises, so the loop
  ends.
\<close>

function select_attraction_loop ::
  "random_source \<Rightarrow> agent \<Rightarrow> (string \<times> attraction) list \<Rightarrow> (string \<times> real) list \<Rightarrow> string list
     \<Rightarrow> string option \<Rightarrow> random_state
     \<Rightarrow> error + ((string option \<times> string option) \<times> random_state)" where
  "select_attraction_loop R ag attractions_dict wait_times valid_attractions desired_attraction st =
     (if length valid_attractions > 0 then
        (let attraction_popularity_distribution =
               map (\<lambda>(attraction_name, parameters). (attraction_name, att_popularity parameters))
                 (filter (\<lambda>(attraction_name, parameters). attraction_name \<in> set valid_attractions)
                    attractions_dict);
             (rng, st') = random_uniform R st 0
                            (real_of_int (sum_list (map snd attraction_popularity_distribution)))
         in case weighted_pick attraction_popularity_distribution rng 0 0 desired_attraction of
              None \<Rightarrow> Inl UnboundLocalError
            | Some desired \<Rightarrow>
                (case map_of wait_times desired of
                   None \<Rightarrow> Inl KeyError
                 | Some wait \<Rightarrow>
                     (case map_of attractions_dict desired of
                        None \<Rightarrow> Inl KeyError
                      | Some a \<Rightarrow>
                          if wait > real_of_int (exp_wait_threshold ag)
                             \<and> expedited_pass_ability ag
                             \<and> int (length (expedited_pass ag)) < exp_limit ag
                             \<and> expedited_queue a
                             \<and> exp_queue_passes a > 0
                          then Inr ((Some ''get pass'', Some desired), st')
                          else if wait > real_of_int (wait_threshold ag + att_popularity a * 6)
                          then
                            (if desired \<in> set valid_attractions
                             then select_attraction_loop R ag attractions_dict wait_times
                                    (remove1 desired valid_attractions) (Some desired) st'
                             else Inl ValueError)
                          else if list_ex (\<lambda>rt. real_of_int rt < wait + real_of_int (run_time a))
                                    (expedited_return_time ag)
                          then
                            (if desired \<in> set valid_attractions
                             then select_attraction_loop R ag attractions_dict wait_times
                                    (remove1 desired valid_attractions) (Some desired) st'
                             else Inl ValueError)
                          else Inr ((Some ''traveling'', Some desired), st'))))
      else Inr ((None, None), st))"
  by pat_completeness auto
termination
  by (relation "measure (\<lambda>(R, ag, attractions_dict, wait_times, valid_attractions, desired_attraction, st).
                    length valid_attractions)")
     (auto simp: length_remove1 intro: diff_less)

declare select_attraction_loop.simps [simp del]

definition select_attraction_decision ::
  "random_source \<Rightarrow> random_state \<Rightarrow> agent \<Rightarrow> string list \<Rightarrow> (string \<times> attraction) list
     \<Rightarrow> ((string option \<times> string option) \<times> random_state) result" where
  "select_attraction_decision R st ag valid_attractions attractions_dict =
     bind_result (attraction_wait_times attractions_dict) (\<lambda>wait_times.
       lift (select_attraction_loop R ag attractions_dict wait_times valid_attractions None st))"

definition select_activity_decision ::
  "random_source \<Rightarrow> random_state \<Rightarrow> (string \<times> activity) list \<Rightarrow> string option \<times> random_state" where
  "select_activity_decision R st activities_dict =
     (let activity_popularity_distribution =
            map (\<lambda>(activity, parameters). (activity, real_of_int (act_popularity parameters)))
              activities_dict;
          (rng, st') = random_uniform R st 0 (sum_list (map snd activity_popularity_distribution))
      in (first_below activity_popularity_distribution rng 0, st'))"

definition make_attraction_activity_decision ::
  "random_source \<Rightarrow> random_state \<Rightarrow> agent \<Rightarrow> (string \<times> activity) list \<Rightarrow> (string \<times> attraction) list
     \<Rightarrow> ((string option \<times> string option) \<times> random_state) result" where
  "make_attraction_activity_decision R st ag activities_dict attractions_dict =
     bind_result (lift (decide_attraction_or_activity R st ag attractions_dict))
       (\<lambda>((desired_decision_type, valid_attractions), st1).
          if desired_decision_type = ''activity'' then
            (let (selected_activity, st2) = select_activity_decision R st1 activities_dict
             in returns ((Some ''traveling'', selected_activity), st2))
          else
            bind_result (select_attraction_decision R st1 ag valid_attractions attractions_dict)
              (\<lambda>((action, location), st2).
                 if action = None then
                   (let (selected_activity, st3) = select_activity_decision R st2 activities_dict
                    in returns ((Some ''traveling'', selected_activity), st3))
                 else returns ((action, location), st2)))"

text \<open>
  \<^verbatim>\<open>make_state_change_decision\<close>: the assignment made when the park is closed is
  overwritten by the result of \<^verbatim>\<open>decide_to_leave_park\<close>, which is called in every case.
\<close>

definition make_state_change_decision ::
  "random_source \<Rightarrow> random_state \<Rightarrow> agent \<Rightarrow> (string \<times> attraction) list \<Rightarrow> (string \<times> activity) list
     \<Rightarrow> int \<Rightarrow> bool \<Rightarrow> ((string option \<times> string option) \<times> random_state) result" where
  "make_state_change_decision R st ag attractions_dict activities_dict time park_closed =
     (let (action, location) =
            (if park_closed then (Some ''leaving'', Some ''gate'') else (None, None))
      in bind_result (lift (decide_to_leave_park R ag time))
           (\<lambda>(action, location).
              if action = None then
                make_attraction_activity_decision R st ag activities_dict attractions_dict
              else returns ((action, location), st)))"

definition agent_pass_time :: "agent \<Rightarrow> agent" where
  "agent_pass_time ag =
     (if within_park ag then
        (let ag' = ag\<lparr>time_spent_at_current_location := time_spent_at_current_location ag + 1\<rparr>
         in if expedited_pass ag' \<noteq> []
            then ag'\<lparr>expedited_return_time := map (\<lambda>val. val - 1) (expedited_return_time ag')\<rparr>
            else ag')
      else ag)"

definition leave_park :: "agent \<Rightarrow> int \<Rightarrow> agent" where
  "leave_park ag time =
     ag\<lparr>within_park := False, current_location := Some ''outside park'', current_action := None,
        exit_time := Some time, time_spent_at_current_location := 0\<rparr>"

definition enter_queue :: "agent \<Rightarrow> string \<Rightarrow> agent" where
  "enter_queue ag attraction =
     ag\<lparr>current_location := Some attraction, current_action := Some ''queueing'',
        time_spent_at_current_location := 0\<rparr>"

definition begin_activity :: "agent \<Rightarrow> string \<Rightarrow> agent" where
  "begin_activity ag activity =
     ag\<lparr>current_location := Some activity, current_action := Some ''browsing'',
        time_spent_at_current_location := 0\<rparr>"

definition get_pass :: "agent \<Rightarrow> string \<Rightarrow> agent" where
  "get_pass ag attraction =
     ag\<lparr>current_location := Some ''gate'', current_action := Some ''getting pass'',
        expedited_pass := expedited_pass ag @ [attraction],
        time_spent_at_current_location := 0\<rparr>"

definition assign_expedited_return_time :: "agent \<Rightarrow> int \<Rightarrow> agent" where
  "assign_expedited_return_time ag expedited_wait_time =
     ag\<lparr>expedited_return_time := expedited_return_time ag @ [expedited_wait_time],
        current_action := Some ''idling''\<rparr>"

text \<open>The last index at which the pass list holds the attraction, as the \<^verbatim>\<open>for\<close> loop of
  \<^verbatim>\<open>return_exp_pass\<close> and \<^verbatim>\<open>agent_boarded_attraction\<close> finds it.\<close>

fun ind_to_remove :: "string list \<Rightarrow> string \<Rightarrow> nat \<Rightarrow> nat option \<Rightarrow> nat option" where
  "ind_to_remove [] attraction ind found = found"
| "ind_to_remove (attraction_pass # rest) attraction ind found =
     ind_to_remove rest attraction (Suc ind) (if attraction_pass = attraction then Some ind else found)"

text \<open>The two \<^verbatim>\<open>del\<close> statements; the first list is changed even when the second raises.\<close>

definition delete_pass :: "agent \<Rightarrow> nat \<Rightarrow> error + agent" where
  "delete_pass ag ind =
     (case list_del ind (expedited_pass ag) of
        Inl e \<Rightarrow> Inl e
      | Inr passes \<Rightarrow>
          (case list_del ind (expedited_return_time ag) of
             Inl e \<Rightarrow> Inl e
           | Inr return_times \<Rightarrow>
               Inr (ag\<lparr>expedited_pass := passes, expedited_return_time := return_times\<rparr>)))"

definition return_exp_pass :: "agent \<Rightarrow> string \<Rightarrow> error + agent" where
  "return_exp_pass ag attraction =
     (case ind_to_remove (expedited_pass ag) attraction 0 None of
        None \<Rightarrow> Inl TypeError
      | Some ind \<Rightarrow> delete_pass ag ind)"

text \<open>Adding one to a counter of the history dictionaries; KeyError for an unknown name.\<close>

definition agent_exited_attraction :: "agent \<Rightarrow> string \<Rightarrow> error + agent" where
  "agent_exited_attraction ag name =
     (case map_of (state_attractions ag) name of
        None \<Rightarrow> Inl KeyError
      | Some times_completed \<Rightarrow>
          Inr (ag\<lparr>current_location := Some ''gate'', current_action := Some ''idling'',
                 state_attractions := AList.update name (times_completed + 1) (state_attractions ag),
                 time_spent_at_current_location := 0\<rparr>))"

text \<open>\<^verbatim>\<open>agent_boarded_attraction\<close> returns whether a pass was redeemed.\<close>

definition agent_boarded_attraction :: "agent \<Rightarrow> string \<Rightarrow> error + (agent \<times> bool)" where
  "agent_boarded_attraction ag name =
     (if name \<in> set (expedited_pass ag) then
        (case (case ind_to_remove (expedited_pass ag) name 0 None of
                 None \<Rightarrow> Inr ag
               | Some ind \<Rightarrow> delete_pass ag ind) of
           Inl e \<Rightarrow> Inl e
         | Inr ag' \<Rightarrow>
             Inr (ag'\<lparr>current_location := Some name, current_action := Some ''riding'',
                     time_spent_at_current_location := 0\<rparr>, True))
      else
        Inr (ag\<lparr>current_location := Some name, current_action := Some ''riding'',
               time_spent_at_current_location := 0\<rparr>, False))"

definition agent_exited_activity :: "agent \<Rightarrow> string \<Rightarrow> error + agent" where
  "agent_exited_activity ag name =
     (case map_of (state_activities ag) name of
        None \<Rightarrow> Inl KeyError
      | Some (times_visited, time_spent) \<Rightarrow>
          Inr (ag\<lparr>current_location := Some ''gate'', current_action := Some ''idling'',
                 state_activities := AList.update name (times_visited + 1, time_spent) (state_activities ag),
                 time_spent_at_current_location := 0\<rparr>))"

section \<open>Park (park.py)\<close>

text \<open>
  The dictionary \<^verbatim>\<open>agents\<close> has the keys \<open>0, 1, \<dots>\<close> in this order (\<^verbatim>\<open>generate_agents\<close> fills
  it for \<^verbatim>\<open>range(total_agents)\<close>), so it is a list and the key is the position. The other
  dictionaries are association lists in insertion order. \<open>random_state\<close> and
  \<open>numpy_state\<close> are the states of the two process-wide generators. Plotting, printing
  and the fields that only they read are left out.
\<close>

record park =
  attraction_list :: "attraction_characteristics list"
  activity_list :: "activity_characteristics list"
  random_seed :: int
  schedule :: "(int \<times> int) list"
  agents :: "agent list"
  attractions :: "(string \<times> attraction) list"
  activities :: "(string \<times> activity) list"
  total_active_agents :: "int \<rightharpoonup> nat"
  distributed_passes :: int
  redeemed_passes :: int
  time :: int
  arrival_index :: int
  park_close :: "int option"
  random_state :: random_state
  numpy_state :: nat

definition new_park ::
  "attraction_characteristics list \<Rightarrow> activity_characteristics list \<Rightarrow> int
     \<Rightarrow> random_state \<Rightarrow> nat \<Rightarrow> park" where
  "new_park attraction_cs activity_cs seed st np =
     \<lparr> attraction_list = attraction_cs,
       activity_list = activity_cs,
       random_seed = seed,
       schedule = [],
       agents = [],
       attractions = [],
       activities = [],
       total_active_agents = Map.empty,
       distributed_passes = 0,
       redeemed_passes = 0,
       time = 0,
       arrival_index = 0,
       park_close = None,
       random_state = st,
       numpy_state = np \<rparr>"

subsection \<open>generate_arrival_schedule\<close>

text \<open>\<^verbatim>\<open>for minute, arrivals in zip(range(60), minute_arrivals)\<close>: the updates of one hour.\<close>

fun store_minutes :: "(int \<times> int) list \<Rightarrow> int \<Rightarrow> (nat \<times> nat) list \<Rightarrow> (int \<times> int) list" where
  "store_minutes sch hour [] = sch"
| "store_minutes sch hour ((minute, arrivals) # rest) =
     store_minutes (AList.update (hour * 60 + int minute) (int arrivals) sch) hour rest"

text \<open>
  The loop over the hours. \<^verbatim>\<open>not self.park_close\<close> holds for \<^verbatim>\<open>None\<close> and for \<open>0\<close>. numpy
  raises ValueError for a negative \<^verbatim>\<open>lam\<close>.
\<close>

fun sample_hours ::
  "random_source \<Rightarrow> park \<Rightarrow> int \<Rightarrow> (nat \<times> string \<times> int) list \<Rightarrow> error + park" where
  "sample_hours R p total_daily_agents [] = Inr p"
| "sample_hours R p total_daily_agents ((hour, key, arrival_pct) # rest) =
     (let p1 = (if arrival_pct = 0 \<and> (park_close p = None \<or> park_close p = Some 0)
                then p\<lparr>park_close := Some (int hour * 60)\<rparr> else p);
          total_hour_agents = real_of_int total_daily_agents * real_of_int arrival_pct * (1 / 100);
          expected_minute_agents = total_hour_agents / 60
      in if expected_minute_agents < 0 then Inl ValueError
         else
           (let minute_arrivals = poisson_seeded R (random_seed p1 + int hour) expected_minute_agents
            in sample_hours R
                 (p1\<lparr>schedule := store_minutes (schedule p1) (int hour) (zip [0..<60] minute_arrivals)\<rparr>)
                 total_daily_agents rest))"

text \<open>
  The two correction loops: \<open>n\<close> rounds, each adding \<open>d\<close> (\<open>-1\<close> or \<open>1\<close>) to a bucket chosen
  by \<^verbatim>\<open>random.choice\<close> among the buckets with a positive count. \<^verbatim>\<open>random.choice\<close> raises
  IndexError on an empty list.
\<close>

fun correct_arrivals ::
  "random_source \<Rightarrow> int \<Rightarrow> nat \<Rightarrow> (int \<times> int) list \<Rightarrow> random_state
     \<Rightarrow> error + ((int \<times> int) list \<times> random_state)" where
  "correct_arrivals R d 0 sch st = Inr (sch, st)"
| "correct_arrivals R d (Suc n) sch st =
     (let keys = map fst (filter (\<lambda>(key, val). val > 0) sch)
      in if keys = [] then Inl IndexError
         else
           (let rng_key = keys ! (choice R (fst st) (snd st) (length keys) mod length keys)
            in case map_of sch rng_key of
                 None \<Rightarrow> Inl KeyError
               | Some val \<Rightarrow>
                   correct_arrivals R d n (AList.update rng_key (val + d) sch) (fst st, Suc (snd st))))"

definition generate_arrival_schedule ::
  "random_source \<Rightarrow> park \<Rightarrow> (string \<times> int) list \<Rightarrow> int \<Rightarrow> bool \<Rightarrow> error + park" where
  "generate_arrival_schedule R p arrival_seed total_daily_agents perfect_arrivals =
     (if sum_list (map snd arrival_seed) \<noteq> 100 then Inl AssertionError
      else if length arrival_seed > 24 then Inl AssertionError
      else
        (case sample_hours R p total_daily_agents (zip [0..<length arrival_seed] arrival_seed) of
           Inl e \<Rightarrow> Inl e
         | Inr p1 \<Rightarrow>
             (let p2 = p1\<lparr>random_state := (random_seed p1, 0)\<rparr>
              in if perfect_arrivals then
                   (let actual_total_daily_agents = sum_list (map snd (schedule p2));
                        dif = actual_total_daily_agents - total_daily_agents
                    in case (if dif > 0
                             then correct_arrivals R (- 1) (nat dif) (schedule p2) (random_state p2)
                             else if dif < 0
                             then correct_arrivals R 1 (nat (dif * - 1)) (schedule p2) (random_state p2)
                             else Inr (schedule p2, random_state p2)) of
                         Inl e \<Rightarrow> Inl e
                       | Inr (sch, st) \<Rightarrow>
                           if sum_list (map snd sch) = total_daily_agents
                           then Inr (p2\<lparr>schedule := sch, random_state := st\<rparr>)
                           else Inl AssertionError)
                 else Inr p2)))"

subsection \<open>generate_agents, generate_attractions, generate_activities\<close>

text \<open>\<^verbatim>\<open>self.agents.update({agent_id: agent})\<close> on the list of agents.\<close>

definition store_agent :: "agent list \<Rightarrow> nat \<Rightarrow> agent \<Rightarrow> agent list" where
  "store_agent ags new_id ag = (if new_id < length ags then ags[new_id := ag] else ags @ [ag])"

fun make_agents ::
  "random_source \<Rightarrow> park \<Rightarrow> (string \<times> real) list \<Rightarrow> real \<Rightarrow> int \<Rightarrow> int \<Rightarrow> nat list
     \<Rightarrow> error + park" where
  "make_agents R p behavior_archetype_distribution exp_ability_pct exp_wait_thr exp_lim [] = Inr p"
| "make_agents R p behavior_archetype_distribution exp_ability_pct exp_wait_thr exp_lim (new_id # rest) =
     (let (draw, st1) = random_uniform R (random_seed p + int new_id, 0) 0 1;
          exp_ability = (draw < exp_ability_pct)
      in case initialize_agent R st1 (random_seed p) behavior_archetype_distribution exp_ability
                exp_wait_thr exp_lim new_id
                (map c_name (attraction_list p)) (map ac_name (activity_list p)) of
           Inl e \<Rightarrow> Inl e
         | Inr (ag, st2) \<Rightarrow>
             make_agents R (p\<lparr>agents := store_agent (agents p) new_id ag, random_state := st2\<rparr>)
               behavior_archetype_distribution exp_ability_pct exp_wait_thr exp_lim rest)"

definition generate_agents ::
  "random_source \<Rightarrow> park \<Rightarrow> (string \<times> real) list \<Rightarrow> real \<Rightarrow> int \<Rightarrow> int \<Rightarrow> error + park" where
  "generate_agents R p behavior_archetype_distribution exp_ability_pct exp_wait_thr exp_lim =
     (if sum_list (map snd behavior_archetype_distribution) \<noteq> 100 then Inl AssertionError
      else make_agents R p behavior_archetype_distribution exp_ability_pct exp_wait_thr exp_lim
             [0..<nat (sum_list (map snd (schedule p)))])"

fun make_attractions ::
  "(string \<times> attraction) list \<Rightarrow> attraction_characteristics list \<Rightarrow> error + (string \<times> attraction) list" where
  "make_attractions d [] = Inr d"
| "make_attractions d (c # cs) =
     (case new_attraction c of
        Inl e \<Rightarrow> Inl e
      | Inr a \<Rightarrow> make_attractions (AList.update (c_name c) a d) cs)"

definition generate_attractions :: "park \<Rightarrow> error + park" where
  "generate_attractions p =
     (let sorted_list = sort_key c_popularity (attraction_list p)
      in case make_attractions (attractions p) sorted_list of
           Inl e \<Rightarrow> Inl e
         | Inr d \<Rightarrow> Inr (p\<lparr>attraction_list := sorted_list, attractions := d\<rparr>))"

fun make_activities ::
  "int \<Rightarrow> (string \<times> activity) list \<Rightarrow> activity_characteristics list \<Rightarrow> error + (string \<times> activity) list" where
  "make_activities seed d [] = Inr d"
| "make_activities seed d (c # cs) =
     (case new_activity c (Some seed) of
        Inl e \<Rightarrow> Inl e
      | Inr a \<Rightarrow> make_activities seed (AList.update (ac_name c) a d) cs)"

definition generate_activities :: "park \<Rightarrow> error + park" where
  "generate_activities p =
     (let sorted_list = sort_key ac_popularity (activity_list p)
      in case make_activities (random_seed p) (activities p) sorted_list of
           Inl e \<Rightarrow> Inl e
         | Inr d \<Rightarrow> Inr (p\<lparr>activity_list := sorted_list, activities := d\<rparr>))"

subsection \<open>update_park_state\<close>

definition agent_at :: "agent list \<Rightarrow> nat \<Rightarrow> error + agent" where
  "agent_at ags k = (if k < length ags then Inr (ags ! k) else Inl KeyError)"

text \<open>
  \<^verbatim>\<open>for attraction in agent.state["expedited_pass"]\<close> with \<^verbatim>\<open>return_exp_pass\<close> deleting from
  that list in the body: the iterator reads position \<open>i\<close> of the list as it is then, and
  stops when \<open>i\<close> is no longer a position of it.
\<close>

function return_passes ::
  "nat \<Rightarrow> agent \<Rightarrow> (string \<times> attraction) list \<Rightarrow> error + (agent \<times> (string \<times> attraction) list)" where
  "return_passes i ag attractions_dict =
     (if i < length (expedited_pass ag) then
        (case map_of attractions_dict (expedited_pass ag ! i) of
           None \<Rightarrow> Inl KeyError
         | Some a \<Rightarrow>
             (case return_pass a (agent_id ag) of
                Inl e \<Rightarrow> Inl e
              | Inr a' \<Rightarrow>
                  (case return_exp_pass ag (expedited_pass ag ! i) of
                     Inl e \<Rightarrow> Inl e
                   | Inr ag' \<Rightarrow>
                       return_passes (Suc i) ag'
                         (AList.update (expedited_pass ag ! i) a' attractions_dict))))
      else Inr (ag, attractions_dict))"
  by pat_completeness auto
termination
  by (relation "measure (\<lambda>(i, ag, attractions_dict). length (expedited_pass ag) - i)")
     (auto simp: return_exp_pass_def delete_pass_def list_del_def
           split: option.splits sum.splits if_splits)

declare return_passes.simps [simp del]

definition update_park_state ::
  "random_source \<Rightarrow> park \<Rightarrow> nat \<Rightarrow> string option \<Rightarrow> string option \<Rightarrow> park result" where
  "update_park_state R p k action location =
     (case agent_at (agents p) k of
        Inl e \<Rightarrow> raises e
      | Inr ag \<Rightarrow>
          if action = Some ''leaving'' then
            (case (if expedited_pass ag \<noteq> [] then return_passes 0 ag (attractions p)
                   else Inr (ag, attractions p)) of
               Inl e \<Rightarrow> raises e
             | Inr (ag', attractions_dict) \<Rightarrow>
                 returns (p\<lparr>agents := (agents p)[k := leave_park ag' (time p)],
                            attractions := attractions_dict\<rparr>))
          else if action = Some ''traveling'' then
            (case location of
               None \<Rightarrow> returns p
             | Some loc \<Rightarrow>
                 (let p1 = (case map_of (attractions p) loc of
                              None \<Rightarrow> p
                            | Some a \<Rightarrow>
                                p\<lparr>agents := (agents p)[k := enter_queue ag loc],
                                  attractions :=
                                    AList.update loc (add_to_queue a (agent_id ag)) (attractions p)\<rparr>)
                  in case map_of (activities p1) loc of
                       None \<Rightarrow> returns p1
                     | Some act \<Rightarrow>
                         (let ag1 = begin_activity (agents p1 ! k) loc;
                              (act', np) = add_to_activity R (numpy_state p1) act (agent_id ag1)
                                             (expedited_return_time ag1)
                          in returns (p1\<lparr>agents := (agents p1)[k := ag1],
                                         activities := AList.update loc act' (activities p1),
                                         numpy_state := np\<rparr>))))
          else if action = Some ''get pass'' then
            (case location of
               None \<Rightarrow> raises KeyError
             | Some loc \<Rightarrow>
                 (let ag1 = get_pass ag loc
                  in case map_of (attractions p) loc of
                       None \<Rightarrow> raises KeyError
                     | Some a \<Rightarrow>
                         (case add_to_exp_queue (remove_pass a) (agent_id ag1) of
                            None \<Rightarrow> None
                          | Some (a', expedited_wait_time) \<Rightarrow>
                              returns (p\<lparr>agents :=
                                           (agents p)[k := assign_expedited_return_time ag1
                                                             expedited_wait_time],
                                         attractions := AList.update loc a' (attractions p)\<rparr>))))
          else returns p)"

subsection \<open>step\<close>

fun arrive_agents :: "agent list \<Rightarrow> int \<Rightarrow> int \<Rightarrow> nat list \<Rightarrow> error + agent list" where
  "arrive_agents ags first_index now [] = Inr ags"
| "arrive_agents ags first_index now (new_arrival_index # rest) =
     (let agent_index = first_index + int new_arrival_index
      in if 0 \<le> agent_index \<and> nat agent_index < length ags
         then arrive_agents (ags[nat agent_index := arrive_at_park (ags ! nat agent_index) now])
                first_index now rest
         else Inl KeyError)"

definition get_idle_agent_ids :: "park \<Rightarrow> nat list" where
  "get_idle_agent_ids p =
     filter (\<lambda>k. within_park (agents p ! k) \<and> current_action (agents p ! k) = Some ''idling'')
       [0..<length (agents p)]"

text \<open>The loop over the idle agents. \<^verbatim>\<open>self.park_close<=self.time\<close> raises TypeError while
  \<^verbatim>\<open>park_close\<close> is \<^verbatim>\<open>None\<close>.\<close>

fun decide_agents :: "random_source \<Rightarrow> park \<Rightarrow> nat list \<Rightarrow> park result" where
  "decide_agents R p [] = returns p"
| "decide_agents R p (k # rest) =
     (case agent_at (agents p) k of
        Inl e \<Rightarrow> raises e
      | Inr ag \<Rightarrow>
          (case park_close p of
             None \<Rightarrow> raises TypeError
           | Some closing \<Rightarrow>
               bind_result
                 (make_state_change_decision R (random_state p) ag (attractions p) (activities p)
                    (time p) (closing \<le> time p))
                 (\<lambda>((action, location), st).
                    bind_result
                      (update_park_state R
                         (p\<lparr>random_state := st,
                            distributed_passes :=
                              (if action = Some ''get pass'' then distributed_passes p + 1
                               else distributed_passes p)\<rparr>)
                         k action location)
                      (\<lambda>p'. decide_agents R p' rest))))"

fun exit_attraction_agents :: "agent list \<Rightarrow> string \<Rightarrow> nat list \<Rightarrow> error + agent list" where
  "exit_attraction_agents ags attraction_name [] = Inr ags"
| "exit_attraction_agents ags attraction_name (k # rest) =
     (case agent_at ags k of
        Inl e \<Rightarrow> Inl e
      | Inr ag \<Rightarrow>
          (case agent_exited_attraction ag attraction_name of
             Inl e \<Rightarrow> Inl e
           | Inr ag' \<Rightarrow> exit_attraction_agents (ags[k := ag']) attraction_name rest))"

text \<open>A loaded agent that is browsing is first taken out of its activity.\<close>

definition leave_activity_to_board :: "park \<Rightarrow> nat \<Rightarrow> error + park" where
  "leave_activity_to_board p k =
     (case agent_at (agents p) k of
        Inl e \<Rightarrow> Inl e
      | Inr ag \<Rightarrow>
          if current_action ag = Some ''browsing'' then
            (case current_location ag of
               None \<Rightarrow> Inl KeyError
             | Some loc \<Rightarrow>
                 (case dict_get (activities p) loc of
                    Inl e \<Rightarrow> Inl e
                  | Inr act \<Rightarrow>
                      (case force_exit act k of
                         Inl e \<Rightarrow> Inl e
                       | Inr act' \<Rightarrow>
                           (case agent_exited_activity ag loc of
                              Inl e \<Rightarrow> Inl e
                            | Inr ag' \<Rightarrow>
                                Inr (p\<lparr>activities := AList.update loc act' (activities p),
                                       agents := (agents p)[k := ag']\<rparr>)))))
          else Inr p)"

fun board_agents :: "park \<Rightarrow> string \<Rightarrow> nat list \<Rightarrow> error + park" where
  "board_agents p attraction_name [] = Inr p"
| "board_agents p attraction_name (k # rest) =
     (case leave_activity_to_board p k of
        Inl e \<Rightarrow> Inl e
      | Inr p1 \<Rightarrow>
          (case agent_boarded_attraction (agents p1 ! k) attraction_name of
             Inl e \<Rightarrow> Inl e
           | Inr (ag', redeem) \<Rightarrow>
               board_agents
                 (p1\<lparr>agents := (agents p1)[k := ag'],
                     redeemed_passes := (if redeem then redeemed_passes p1 + 1 else redeemed_passes p1)\<rparr>)
                 attraction_name rest))"

fun process_attractions :: "park \<Rightarrow> string list \<Rightarrow> error + park" where
  "process_attractions p [] = Inr p"
| "process_attractions p (attraction_name # rest) =
     (case dict_get (attractions p) attraction_name of
        Inl e \<Rightarrow> Inl e
      | Inr a \<Rightarrow>
          (case attraction_step a (time p) (park_close p) of
             Inl e \<Rightarrow> Inl e
           | Inr (a', exiting_agents, loaded_agents) \<Rightarrow>
               (case exit_attraction_agents (agents p) attraction_name exiting_agents of
                  Inl e \<Rightarrow> Inl e
                | Inr ags \<Rightarrow>
                    (case board_agents
                            (p\<lparr>attractions := AList.update attraction_name a' (attractions p),
                               agents := ags\<rparr>)
                            attraction_name loaded_agents of
                       Inl e \<Rightarrow> Inl e
                     | Inr p' \<Rightarrow> process_attractions p' rest))))"

fun exit_activity_agents :: "agent list \<Rightarrow> string \<Rightarrow> nat list \<Rightarrow> error + agent list" where
  "exit_activity_agents ags activity_name [] = Inr ags"
| "exit_activity_agents ags activity_name (k # rest) =
     (case agent_at ags k of
        Inl e \<Rightarrow> Inl e
      | Inr ag \<Rightarrow>
          (case agent_exited_activity ag activity_name of
             Inl e \<Rightarrow> Inl e
           | Inr ag' \<Rightarrow> exit_activity_agents (ags[k := ag']) activity_name rest))"

fun process_activities :: "park \<Rightarrow> string list \<Rightarrow> error + park" where
  "process_activities p [] = Inr p"
| "process_activities p (activity_name # rest) =
     (case dict_get (activities p) activity_name of
        Inl e \<Rightarrow> Inl e
      | Inr act \<Rightarrow>
          (case activity_step act (time p) of
             Inl e \<Rightarrow> Inl e
           | Inr (act', exiting_agents) \<Rightarrow>
               (case exit_activity_agents (agents p) activity_name exiting_agents of
                  Inl e \<Rightarrow> Inl e
                | Inr ags \<Rightarrow>
                    process_activities
                      (p\<lparr>activities := AList.update activity_name act' (activities p), agents := ags\<rparr>)
                      rest)))"

fun attractions_pass_time ::
  "(string \<times> attraction) list \<Rightarrow> int \<Rightarrow> (string \<times> attraction) list result" where
  "attractions_pass_time [] now = returns []"
| "attractions_pass_time ((attraction_name, a) # rest) now =
     bind_result (attraction_store_history (attraction_pass_time a) now) (\<lambda>a'.
       bind_result (attractions_pass_time rest now) (\<lambda>rest'. returns ((attraction_name, a') # rest')))"

definition calculate_total_active_agents :: "park \<Rightarrow> park" where
  "calculate_total_active_agents p =
     p\<lparr>total_active_agents := (total_active_agents p)(time p \<mapsto> length (filter within_park (agents p)))\<rparr>"

text \<open>The first part of \<^verbatim>\<open>step\<close>: the arrivals of the minute enter.\<close>

definition release_arrivals :: "park \<Rightarrow> error + park" where
  "release_arrivals p =
     (case dict_get (schedule p) (time p) of
        Inl e \<Rightarrow> Inl e
      | Inr total_arrivals \<Rightarrow>
          (case arrive_agents (agents p) (arrival_index p) (time p) [0..<nat total_arrivals] of
             Inl e \<Rightarrow> Inl e
           | Inr ags \<Rightarrow> Inr (p\<lparr>agents := ags, arrival_index := arrival_index p + total_arrivals\<rparr>)))"

definition park_step :: "random_source \<Rightarrow> park \<Rightarrow> park result" where
  "park_step R p =
     bind_result (lift (release_arrivals p)) (\<lambda>p1.
       bind_result (decide_agents R p1 (get_idle_agent_ids p1)) (\<lambda>p2.
         bind_result (lift (process_attractions p2 (map fst (attractions p2)))) (\<lambda>p3.
           bind_result (lift (process_activities p3 (map fst (activities p3)))) (\<lambda>p4.
             bind_result (attractions_pass_time (attractions p4) (time p4)) (\<lambda>atts.
               (let p5 = p4\<lparr>agents := map agent_pass_time (agents p4),
                            attractions := atts,
                            activities :=
                              map (\<lambda>(activity_name, act).
                                     (activity_name,
                                      activity_store_history (activity_pass_time act) (time p4)))
                                (activities p4)\<rparr>;
                    p6 = calculate_total_active_agents p5
                in returns (p6\<lparr>time := time p6 + 1\<rparr>)))))))"

text \<open>A reachable park is the new one after any sequence of calls that all return.\<close>

datatype park_call =
    Generate_arrival_schedule "(string \<times> int) list" int bool
  | Generate_agents "(string \<times> real) list" real int int
  | Generate_attractions
  | Generate_activities
  | Step_park

fun apply_park_call :: "random_source \<Rightarrow> park \<Rightarrow> park_call \<Rightarrow> park result" where
  "apply_park_call R p (Generate_arrival_schedule arrival_seed total_daily_agents perfect_arrivals) =
     lift (generate_arrival_schedule R p arrival_seed total_daily_agents perfect_arrivals)"
| "apply_park_call R p (Generate_agents behavior_archetype_distribution exp_ability_pct exp_wait_thr exp_lim) =
     lift (generate_agents R p behavior_archetype_distribution exp_ability_pct exp_wait_thr exp_lim)"
| "apply_park_call R p Generate_attractions = lift (generate_attractions p)"
| "apply_park_call R p Generate_activities = lift (generate_activities p)"
| "apply_park_call R p Step_park = park_step R p"

fun apply_park_calls :: "random_source \<Rightarrow> park \<Rightarrow> park_call list \<Rightarrow> park result" where
  "apply_park_calls R p [] = returns p"
| "apply_park_calls R p (c # cs) = bind_result (apply_park_call R p c) (\<lambda>p'. apply_park_calls R p' cs)"

section \<open>The pass lists of an agent\<close>

text \<open>No attraction twice among the held passes, and as many countdowns as passes.\<close>

definition passes_ok :: "agent \<Rightarrow> bool" where
  "passes_ok ag \<longleftrightarrow>
     distinct (expedited_pass ag) \<and> length (expedited_pass ag) = length (expedited_return_time ag)"

definition agents_ok :: "agent list \<Rightarrow> bool" where
  "agents_ok ags \<longleftrightarrow> list_all passes_ok ags"

text \<open>
  The passes an agent holds, each with the countdown stored at the same index of
  \<^verbatim>\<open>expedited_return_time\<close>.
\<close>

definition held :: "agent \<Rightarrow> (string \<times> int) list" where
  "held ag = zip (expedited_pass ag) (expedited_return_time ag)"

text \<open>
  What one call may do to the held passes of an agent: at most one pass is issued, for an
  attraction the agent holds no pass for, and is put behind the others with its countdown;
  passes are dropped together with their own countdowns, the others keeping their order; and
  all remaining countdowns go down by the same \<open>d\<close>, which is 0 or 1. A countdown never moves
  to another pass.
\<close>

definition issued_to :: "(string \<times> int) list \<Rightarrow> (string \<times> int) list \<Rightarrow> bool" where
  "issued_to old issued \<longleftrightarrow>
     issued = [] \<or> (\<exists>attraction w. issued = [(attraction, w)] \<and> attraction \<notin> fst ` set old)"

definition aligned_step :: "(string \<times> int) list \<Rightarrow> (string \<times> int) list \<Rightarrow> bool" where
  "aligned_step old new \<longleftrightarrow>
     (\<exists>d issued kept.
        (d = 0 \<or> d = 1) \<and> issued_to old issued \<and> subseq kept (old @ issued)
        \<and> new = map (\<lambda>(attraction, countdown). (attraction, countdown - d)) kept)"

text \<open>The same before the minute passes, and for all agents when no pass is issued.\<close>

definition decided :: "(string \<times> int) list \<Rightarrow> (string \<times> int) list \<Rightarrow> bool" where
  "decided old new \<longleftrightarrow> (\<exists>issued. issued_to old issued \<and> subseq new (old @ issued))"

definition sub_held :: "agent list \<Rightarrow> agent list \<Rightarrow> bool" where
  "sub_held ags ags' \<longleftrightarrow>
     length ags \<le> length ags' \<and> (\<forall>k < length ags. subseq (held (ags' ! k)) (held (ags ! k)))"

section \<open>Calls that fix no closing time\<close>


section \<open>Example data\<close>

text \<open>
  A source of randomness for the examples: every uniform draw is 1/2, every seeded normal
  draw is its mean, an hour with a positive rate has one arrival in each of its first two
  minutes, and the unseeded normal draw is the parameter.
\<close>

definition example_random :: "real \<Rightarrow> random_source" where
  "example_random g =
     \<lparr> uniform = (\<lambda>s k. 1 / 2),
       choice = (\<lambda>s k n. 0),
       normal_seeded = (\<lambda>s loc scale. loc),
       poisson_seeded = (\<lambda>s lam. if lam = 0 then replicate 60 0 else [1, 1] @ replicate 58 0),
       normal_global = (\<lambda>k loc scale. g) \<rparr>"

definition example_arcade :: "int \<Rightarrow> activity" where
  "example_arcade seed =
     initialize_activity \<lparr>ac_name = ''Arcade'', ac_popularity = 5, ac_mean_time = 30\<rparr> (Some seed)"

text \<open>
  An idle visitor who arrived at minute 500, and a source of randomness whose Poisson
  samples are all zero.
\<close>

definition example_visitor :: agent where
  "example_visitor =
     \<lparr> agent_id = 3, agent_random_seed = 7, arrival_time = Some 500, exit_time = None,
       within_park = True, current_location = Some ''gate'', current_action = Some ''idling'',
       time_spent_at_current_location = 0, expedited_return_time = [], expedited_pass = [],
       expedited_pass_ability = True, exp_wait_threshold = 5, exp_limit = 1,
       state_attractions = [], state_activities = [(''Arcade'', 0, 0)],
       age_class = ''no_adult_rides'', archetype = ''activity_enthusiast'',
       stay_time_preference = 240, allow_repeats = False, attraction_preference = 2 / 10,
       wait_threshold = 90 \<rparr>"

definition no_arrivals_random :: random_source where
  "no_arrivals_random = (example_random 0)\<lparr>poisson_seeded := (\<lambda>s lam. replicate 60 0)\<rparr>"

text \<open>
  A day of two hours: all arrivals in the first, none in the second, so that the park
  closes at minute 60. The park has the ride with the expedited queue and the arcade; two
  ride enthusiasts arrive, one in minute 0 and one in minute 1.
\<close>

definition example_schedule :: "(int \<times> int) list" where
  "example_schedule =
     store_minutes (store_minutes [] 0 (zip [0..<60] ([1, 1] @ replicate 58 0))) 1
       (zip [0..<60] (replicate 60 0))"

definition example_park :: park where
  "example_park =
     new_park [example_ride] [\<lparr>ac_name = ''Arcade'', ac_popularity = 5, ac_mean_time = 30\<rparr>] 7 (0, 0) 0"

definition example_day :: "(string \<times> int) list" where
  "example_day = [(''9am'', 100), (''10am'', 0)]"

definition example_rider :: "nat \<Rightarrow> agent" where
  "example_rider k =
     \<lparr> agent_id = k, agent_random_seed = 7, arrival_time = None, exit_time = None,
       within_park = False, current_location = None, current_action = None,
       time_spent_at_current_location = 0, expedited_return_time = [], expedited_pass = [],
       expedited_pass_ability = True, exp_wait_threshold = 5, exp_limit = 1,
       state_attractions = [(''Coaster'', 0)], state_activities = [(''Arcade'', 0, 0)],
       age_class = ''no_adult_rides'', archetype = ''ride_enthusiast'',
       stay_time_preference = 540, allow_repeats = True, attraction_preference = 6 / 10,
       wait_threshold = 480 \<rparr>"

definition example_park_open :: park where
  "example_park_open =
     example_park\<lparr>schedule := example_schedule, park_close := Some 60,
       attractions := [(''Coaster'', initialize_attraction example_ride)],
       activities := [(''Arcade'', example_arcade 7)],
       agents := [example_rider 0, example_rider 1],
       random_state := (8, 3)\<rparr>"

definition example_park_calls :: "park_call list" where
  "example_park_calls =
     [Generate_arrival_schedule example_day 2 True, Generate_attractions, Generate_activities,
      Generate_agents [(''ride_enthusiast'', 100)] 1 5 1, Step_park, Step_park]"

definition example_park_riding :: park where
  "example_park_riding =
     example_park_open\<lparr>
       agents := [(example_rider 0)\<lparr>arrival_time := Some 0, within_park := True,
                    current_location := Some ''Coaster'', current_action := Some ''riding'',
                    time_spent_at_current_location := 1\<rparr>,
                  example_rider 1],
       attractions := [(''Coaster'', (initialize_attraction example_ride)\<lparr>
                          run_time_remaining := 9, exp_queue_passes := 30,
                          agents_in_attraction := [0],
                          queue_length := [0 \<mapsto> 0], queue_wait_time := [0 \<mapsto> 9],
                          exp_queue_length := [0 \<mapsto> 0], exp_queue_wait_time := [0 \<mapsto> 9]\<rparr>)],
       activities := [(''Arcade'', (example_arcade 7)\<lparr>total_vistors := [0 \<mapsto> 0]\<rparr>)],
       total_active_agents := [0 \<mapsto> 1],
       time := 1, arrival_index := 1, random_state := (8, 5)\<rparr>"

text \<open>The park one minute later: the second rider holds a pass for the ride.\<close>

definition example_park_holding :: park where
  "example_park_holding =
     example_park_riding\<lparr>
       agents := [(example_rider 0)\<lparr>arrival_time := Some 0, within_park := True,
                    current_location := Some ''Coaster'', current_action := Some ''riding'',
                    time_spent_at_current_location := 2\<rparr>,
                  (example_rider 1)\<lparr>arrival_time := Some 1, within_park := True,
                    current_location := Some ''gate'', current_action := Some ''idling'',
                    time_spent_at_current_location := 1,
                    expedited_return_time := [8], expedited_pass := [''Coaster'']\<rparr>],
       attractions := [(''Coaster'', (initialize_attraction example_ride)\<lparr>
                          run_time_remaining := 8, exp_queue_passes := - 1,
                          agents_in_attraction := [0], exp_queue := [1],
                          exp_queue_passes_distributed := 1,
                          queue_length := [0 \<mapsto> 0, 1 \<mapsto> 0],
                          queue_wait_time := [0 \<mapsto> 9, 1 \<mapsto> 8],
                          exp_queue_length := [0 \<mapsto> 0, 1 \<mapsto> 1],
                          exp_queue_wait_time := [0 \<mapsto> 9, 1 \<mapsto> 8]\<rparr>)],
       activities := [(''Arcade'', (example_arcade 7)\<lparr>total_vistors := [0 \<mapsto> 0, 1 \<mapsto> 0]\<rparr>)],
       total_active_agents := [0 \<mapsto> 1, 1 \<mapsto> 2],
       distributed_passes := 1, time := 2, arrival_index := 2, random_state := (8, 7)\<rparr>"






section \<open>Properties of the attraction\<close>



lemma bind_result_returns:
  "bind_result m f = returns y \<longleftrightarrow> (\<exists>x. m = returns x \<and> f x = returns y)"
  by (auto simp: bind_result_def returns_def split: option.splits sum.splits)















text \<open>
  C5, as far as it holds. For an attraction with an expedited queue and a now at or after
  the closing minute, \<^verbatim>\<open>step\<close> returns and leaves a pass budget of 0. The budget stays 0
  only until the next \<^verbatim>\<open>return_pass\<close>, see below.
\<close>

theorem pass_budget_zero_after_close:
  assumes "expedited_queue a" and "pc \<le> now"
  shows "\<exists>a' exiting_agents loaded_agents.
           attraction_step a now (Some pc) = Inr (a', exiting_agents, loaded_agents)
           \<and> exp_queue_passes a' = 0"
  using assms by (auto simp: attraction_step_def refresh_passes_def Let_def)

theorem pass_budget_zero_after_close_witness:
  "expedited_queue example_loaded \<and> (600::int) \<le> 605
   \<and> (\<exists>a' exiting_agents loaded_agents.
         attraction_step example_loaded 605 (Some 600) = Inr (a', exiting_agents, loaded_agents)
         \<and> exp_queue_passes a' = 0)"
proof -
  have h: "expedited_queue example_loaded"
    by (simp add: example_loaded_def initialize_attraction_def example_ride_def)
  have t: "(600::int) \<le> 605" by simp
  show ?thesis using pass_budget_zero_after_close[OF h t] h by simp
qed

text \<open>
  C5, the part that fails: the budget is not "never positive at or after closing".
  \<^verbatim>\<open>return_pass\<close> adds 1 to the budget whatever the time is, and \<^verbatim>\<open>Park.step\<close> lets the
  agents decide, and the leaving ones return their passes, before the attractions step. Here
  the attraction steps at the closing minute 600, which sets the budget to 0, and a pass
  returned afterwards makes the budget 1.
\<close>

theorem pass_budget_positive_after_close:
  "apply_calls (initialize_attraction example_ride) example_late_return
     = returns (example_loaded\<lparr>exp_queue_passes := 1\<rparr>)
   \<and> expedited_queue (example_loaded\<lparr>exp_queue_passes := 1\<rparr>)
   \<and> exp_queue_passes (example_loaded\<lparr>exp_queue_passes := 1\<rparr>) > 0"
  by (simp add: example_late_return_def example_calls_def example_ride_def initialize_attraction_def
      bind_result_def returns_def raises_def lift_def add_to_exp_queue_def add_to_queue_def
      get_exp_wait_time_def remove_pass_def return_pass_def list_remove_def
      exp_wait_time_loop.simps py_int_def attraction_step_def refresh_passes_def
      expedited_agents_to_load_def agents_to_load_def max_exp_queue_agents_def max_queue_agents_def
      slice_to_def slice_from_def Let_def example_loaded_def)

text \<open>
  C7. Without an expedited queue, \<^verbatim>\<open>get_wait_time\<close> is
  \<^verbatim>\<open>(len(queue) // capacity) * run_time + run_time_remaining\<close>, which raises ZeroDivisionError
  for a capacity of zero. A run now of 10 and an hourly throughput of 60 give the
  capacity 10, and with 25 agents in the standby queue the wait is 20 plus the remaining
  run now.
\<close>

theorem get_wait_time_without_expedited_queue:
  assumes "\<not> expedited_queue a"
  shows "get_wait_time a =
          (if capacity a = 0 then raises ZeroDivisionError
           else returns (real_of_int \<lfloor>real (length (queue a)) / capacity a\<rfloor> * real_of_int (run_time a)
                         + real_of_int (run_time_remaining a)))
       \<and> (c_run_time c = 10 \<and> c_hourly_throughput c = 60 \<longrightarrow> capacity (initialize_attraction c) = 10)
       \<and> (run_time a = 10 \<and> capacity a = 10 \<and> length (queue a) = 25 \<longrightarrow>
            get_wait_time a = returns (20 + real_of_int (run_time_remaining a)))"
  using assms by (simp add: get_wait_time_def initialize_attraction_def)

theorem get_wait_time_without_expedited_queue_witness:
  "\<not> expedited_queue example_standby_ride
   \<and> c_run_time example_ride = 10 \<and> c_hourly_throughput example_ride = 60
   \<and> capacity (initialize_attraction example_ride) = 10
   \<and> run_time example_standby_ride = 10 \<and> capacity example_standby_ride = 10
   \<and> length (queue example_standby_ride) = 25
   \<and> get_wait_time example_standby_ride = returns 23"
proof -
  have h: "\<not> expedited_queue example_standby_ride"
    by (simp add: example_standby_ride_def initialize_attraction_def)
  show ?thesis
    using get_wait_time_without_expedited_queue[OF h, of example_ride] h
    by (simp add: example_standby_ride_def initialize_attraction_def example_ride_def)
qed

text \<open>C8. Without an expedited queue, \<^verbatim>\<open>get_exp_wait_time\<close> returns 0 in every state.\<close>

theorem get_exp_wait_time_without_expedited_queue:
  "\<not> expedited_queue a \<Longrightarrow> get_exp_wait_time a = Some 0"
  by (simp add: get_exp_wait_time_def)

theorem get_exp_wait_time_without_expedited_queue_witness:
  "\<not> expedited_queue example_standby_ride \<and> get_exp_wait_time example_standby_ride = Some 0"
proof -
  have h: "\<not> expedited_queue example_standby_ride"
    by (simp add: example_standby_ride_def initialize_attraction_def)
  show ?thesis using get_exp_wait_time_without_expedited_queue[OF h] h by simp
qed

section \<open>Properties of the activity\<close>

lemma py_min_Min: "xs \<noteq> [] \<Longrightarrow> py_min xs = Min (set xs)"
  by (induction xs rule: py_min.induct) (auto simp: min_def Min_insert2 split: if_splits)

lemma py_min_le: "d \<in> set xs \<Longrightarrow> py_min xs \<le> d"
  by (induction xs rule: py_min.induct) auto

lemma drawn_stay_time_ge1: "1 \<le> fst (drawn_stay_time R np a k)"
  by (auto simp: drawn_stay_time_def py_int_def split: option.splits)

text \<open>
  C6, as stated, fails: a held deadline that is negative sets the cap. With the deadlines
  \<open>-3\<close> and \<open>50\<close> and a drawn stay of 30 the recorded stay is 1; with the deadline \<open>50\<close>
  alone it is 30.
\<close>

theorem stay_cap_counterexample:
  "visitor_time_remaining (fst (add_to_activity (example_random 0) 0 (example_arcade 7) 3 [- 3, 50])) = [1]
   \<and> visitor_time_remaining (fst (add_to_activity (example_random 0) 0 (example_arcade 7) 3 [50])) = [30]"
  by (simp add: add_to_activity_def drawn_stay_time_def example_random_def example_arcade_def
      initialize_activity_def py_int_def)

text \<open>
  C6, amended. When the agent holds deadlines, the recorded stay is
  \<open>min (max 1 m) s\<close>, where \<open>m\<close> is the least of all held deadlines, zero and negative ones
  included, and \<open>s\<close> is the drawn stay; it is at least 1 and at most every held deadline
  floored at 1.
\<close>

theorem stay_capped_by_least_deadline:
  assumes "deadlines \<noteq> []"
  shows "visitor_time_remaining (fst (add_to_activity R np a k deadlines)) =
           visitor_time_remaining a
           @ [min (max 1 (Min (set deadlines))) (fst (drawn_stay_time R np a k))]
       \<and> 1 \<le> last (visitor_time_remaining (fst (add_to_activity R np a k deadlines)))
       \<and> (\<forall>d \<in> set deadlines.
            last (visitor_time_remaining (fst (add_to_activity R np a k deadlines))) \<le> max 1 d)"
proof -
  have eq: "visitor_time_remaining (fst (add_to_activity R np a k deadlines)) =
           visitor_time_remaining a
           @ [min (max 1 (py_min deadlines)) (fst (drawn_stay_time R np a k))]"
    using assms by (simp add: add_to_activity_def split: prod.splits)
  have "min (max 1 (py_min deadlines)) (fst (drawn_stay_time R np a k)) \<le> max 1 d"
    if "d \<in> set deadlines" for d
    using py_min_le[OF that] by (simp add: min_def max_def)
  moreover have "1 \<le> min (max 1 (py_min deadlines)) (fst (drawn_stay_time R np a k))"
    using drawn_stay_time_ge1[of R np a k] by (simp add: min_def max_def)
  ultimately show ?thesis
    unfolding eq using assms by (simp add: py_min_Min)
qed

theorem stay_capped_by_least_deadline_witness:
  "[- 3, 50 :: int] \<noteq> []
   \<and> visitor_time_remaining (fst (add_to_activity (example_random 0) 0 (example_arcade 7) 3 [- 3, 50]))
       = [min (max 1 (- 3)) 30]
   \<and> (50::int) \<in> set [- 3, 50]
   \<and> last (visitor_time_remaining (fst (add_to_activity (example_random 0) 0 (example_arcade 7) 3 [- 3, 50])))
       \<le> max 1 50"
proof -
  have h: "[- 3, 50 :: int] \<noteq> []" by simp
  have d: "fst (drawn_stay_time (example_random 0) 0 (example_arcade 7) 3) = 30"
    by (simp add: drawn_stay_time_def example_random_def example_arcade_def
      initialize_activity_def py_int_def)
  have v: "visitor_time_remaining (example_arcade 7) = []"
    by (simp add: example_arcade_def initialize_activity_def)
  show ?thesis
    using stay_capped_by_least_deadline[OF h, of "example_random 0" 0 "example_arcade 7" 3] d v by simp
qed

text \<open>
  C3. With the base seed 0, \<^verbatim>\<open>add_to_activity\<close> takes the stay from numpy's global generator:
  two runs that agree on every seeded draw record different stays (20 and 45 here). With
  the seed 7 the same two runs agree.
\<close>

theorem seed_zero_stay_not_reproducible:
  "uniform (example_random 20) = uniform (example_random 45)
   \<and> choice (example_random 20) = choice (example_random 45)
   \<and> normal_seeded (example_random 20) = normal_seeded (example_random 45)
   \<and> poisson_seeded (example_random 20) = poisson_seeded (example_random 45)
   \<and> visitor_time_remaining (fst (add_to_activity (example_random 20) 0 (example_arcade 0) 3 [])) = [20]
   \<and> visitor_time_remaining (fst (add_to_activity (example_random 45) 0 (example_arcade 0) 3 [])) = [45]
   \<and> add_to_activity (example_random 20) 0 (example_arcade 7) 3 []
       = add_to_activity (example_random 45) 0 (example_arcade 7) 3 []"
  by (simp add: add_to_activity_def drawn_stay_time_def example_random_def example_arcade_def
      initialize_activity_def py_int_def)


section \<open>Properties of the agent's decision\<close>

text \<open>
  C1. \<^verbatim>\<open>make_state_change_decision\<close> does not look at \<^verbatim>\<open>park_closed\<close>: the result is the same
  for both values. At minute 600, with the park closed, the visitor who arrived at minute
  500 and prefers to stay 240 minutes travels to the arcade.
\<close>

theorem park_closed_is_ignored:
  "make_state_change_decision R st ag attractions_dict activities_dict now True
     = make_state_change_decision R st ag attractions_dict activities_dict now False
   \<and> make_state_change_decision (example_random 0) (7, 0) example_visitor []
         [(''Arcade'', example_arcade 7)] 600 True
       = returns ((Some ''traveling'', Some ''Arcade''), (7, 2))"
  by (simp add: make_state_change_decision_def decide_to_leave_park_def example_visitor_def
      example_random_def lift_def bind_result_def make_attraction_activity_decision_def
      decide_attraction_or_activity_def random_uniform_def select_activity_decision_def
      example_arcade_def initialize_activity_def returns_def)

section \<open>Properties of the arrival schedule\<close>

lemma set_alist_update:
  "x \<in> set (AList.update k v al) \<Longrightarrow> x \<in> set al \<or> x = (k, v)"
  by (induction al) (auto split: if_splits)

lemma store_minutes_zero:
  "\<forall>v \<in> snd ` set sch. v \<le> 0 \<Longrightarrow> \<forall>a \<in> snd ` set ms. a = 0 \<Longrightarrow>
   \<forall>v \<in> snd ` set (store_minutes sch hour ms). v \<le> 0"
proof (induction ms arbitrary: sch)
  case Nil
  then show ?case by simp
next
  case (Cons m ms)
  obtain minute arrivals where m: "m = (minute, arrivals)" by (cases m)
  have "\<forall>v \<in> snd ` set (AList.update (hour * 60 + int minute) (int arrivals) sch). v \<le> 0"
    using Cons.prems m by (auto dest!: set_alist_update)
  moreover have "\<forall>a \<in> snd ` set ms. a = 0" using Cons.prems(2) by simp
  ultimately show ?case unfolding m store_minutes.simps by (rule Cons.IH)
qed

text \<open>
  C4. One hour holds all arrivals, the daily total is 1, exact arrivals are requested and
  every Poisson sample is 0: the correction has no bucket with a positive count to choose
  from, and \<^verbatim>\<open>random.choice\<close> raises IndexError.
\<close>

theorem exact_arrivals_fail_on_empty_sample:
  "generate_arrival_schedule no_arrivals_random (new_park [] [] 0 (0, 0) 0) [(''9am'', 100)] 1 True
     = Inl IndexError"
proof -
  define sch where "sch = store_minutes [] 0 (zip [0..<60] (poisson_seeded no_arrivals_random 0 (1 / 60)))"
  have s: "sample_hours no_arrivals_random (new_park [] [] 0 (0, 0) 0) 1 [(0, ''9am'', 100)]
             = Inr ((new_park [] [] 0 (0, 0) 0)\<lparr>schedule := sch\<rparr>)"
    unfolding sch_def by (simp add: new_park_def del: store_minutes.simps upt_rec_numeral)
  have r: "poisson_seeded no_arrivals_random 0 (1 / 60) = replicate 60 0"
    by (simp add: no_arrivals_random_def)
  have "\<forall>a \<in> snd ` set (zip [0..<60] (replicate 60 (0::nat))). a = 0"
  proof
    fix a assume "a \<in> snd ` set (zip [0..<60] (replicate 60 (0::nat)))"
    then obtain i where "(i, a) \<in> set (zip [0..<60] (replicate 60 (0::nat)))" by force
    then have "a \<in> set (replicate 60 (0::nat))" by (rule set_zip_rightD)
    then show "a = 0" by (simp only: set_replicate_conv_if split: if_splits) simp
  qed
  then have z: "\<forall>v \<in> snd ` set sch. v \<le> 0"
    unfolding sch_def r by (intro store_minutes_zero) simp_all
  then have f: "filter (\<lambda>(key, val). val > 0) sch = []"
    by (auto simp: filter_empty_conv)
  have "sum_list (map snd sch) \<le> 0"
    using z by (intro sum_list_nonpos) auto
  then have d: "sum_list (map snd sch) < 1" by simp
  then obtain n where n: "nat (1 - sum_list (map snd sch)) = Suc n"
    by (cases "nat (1 - sum_list (map snd sch))") auto
  show ?thesis
    using d
    by (simp add: generate_arrival_schedule_def s[unfolded new_park_def] new_park_def n f Let_def
        del: sample_hours.simps)
qed


section \<open>Properties of the pass lists\<close>

lemma distinct_list_del:
  assumes "distinct xs" and "list_del i xs = Inr ys"
  shows "distinct ys \<and> Suc (length ys) = length xs"
proof -
  from assms(2) have i: "i < length xs" and ys: "ys = take i xs @ drop (Suc i) xs"
    by (auto simp: list_del_def split: if_splits)
  have "set (take i xs) \<inter> set (drop (Suc i) xs) = {}"
    using assms(1) by (intro set_take_disj_set_drop_if_distinct) simp_all
  with assms(1) i show ?thesis by (simp add: ys)
qed

lemma length_list_del: "list_del i xs = Inr ys \<Longrightarrow> Suc (length ys) = length xs"
  by (auto simp: list_del_def split: if_splits)

lemma delete_pass_ok:
  assumes "delete_pass ag ind = Inr ag'" and "passes_ok ag"
  shows "passes_ok ag'"
proof -
  from assms(1) obtain ps ts where p: "list_del ind (expedited_pass ag) = Inr ps"
    and t: "list_del ind (expedited_return_time ag) = Inr ts"
    and a: "ag' = ag\<lparr>expedited_pass := ps, expedited_return_time := ts\<rparr>"
    by (auto simp: delete_pass_def split: sum.splits)
  from distinct_list_del[OF _ p] length_list_del[OF t] assms(2) show ?thesis
    by (simp add: passes_ok_def a)
qed

lemma return_exp_pass_ok:
  "return_exp_pass ag attraction = Inr ag' \<Longrightarrow> passes_ok ag \<Longrightarrow> passes_ok ag'"
  by (auto simp: return_exp_pass_def split: option.splits dest: delete_pass_ok)

lemma return_passes_ok:
  "return_passes i ag attractions_dict = Inr (ag', attractions_dict') \<Longrightarrow> passes_ok ag
     \<Longrightarrow> passes_ok ag'"
proof (induction i ag attractions_dict rule: return_passes.induct)
  case (1 i ag attractions_dict)
  show ?case
  proof (cases "i < length (expedited_pass ag)")
    case False
    with "1.prems" show ?thesis by (simp add: return_passes.simps[of i ag])
  next
    case True
    with "1.prems"(1) obtain a a' ag1 where
      m: "map_of attractions_dict (expedited_pass ag ! i) = Some a"
      and r: "return_pass a (agent_id ag) = Inr a'"
      and e: "return_exp_pass ag (expedited_pass ag ! i) = Inr ag1"
      and rec: "return_passes (Suc i) ag1 (AList.update (expedited_pass ag ! i) a' attractions_dict)
                  = Inr (ag', attractions_dict')"
      by (subst (asm) return_passes.simps) (auto split: option.splits sum.splits)
    from return_exp_pass_ok[OF e "1.prems"(2)] have "passes_ok ag1" .
    with "1.IH"[OF True m r e rec] show ?thesis .
  qed
qed

lemma simple_steps_ok:
  "passes_ok ag \<Longrightarrow> passes_ok (arrive_at_park ag now)"
  "passes_ok ag \<Longrightarrow> passes_ok (leave_park ag now)"
  "passes_ok ag \<Longrightarrow> passes_ok (enter_queue ag attraction)"
  "passes_ok ag \<Longrightarrow> passes_ok (begin_activity ag activity)"
  "passes_ok ag \<Longrightarrow> passes_ok (agent_pass_time ag)"
  by (auto simp: passes_ok_def arrive_at_park_def leave_park_def enter_queue_def
      begin_activity_def agent_pass_time_def Let_def)

lemma agent_exited_attraction_ok:
  "agent_exited_attraction ag n = Inr ag' \<Longrightarrow> passes_ok ag \<Longrightarrow> passes_ok ag'"
  by (auto simp: agent_exited_attraction_def passes_ok_def split: option.splits)

lemma agent_exited_activity_ok:
  "agent_exited_activity ag n = Inr ag' \<Longrightarrow> passes_ok ag \<Longrightarrow> passes_ok ag'"
  by (auto simp: agent_exited_activity_def passes_ok_def split: option.splits)

lemma agent_boarded_attraction_ok:
  assumes "agent_boarded_attraction ag n = Inr (ag', redeem)" and "passes_ok ag"
  shows "passes_ok ag'"
proof (cases "n \<in> set (expedited_pass ag)")
  case False
  with assms show ?thesis by (auto simp: agent_boarded_attraction_def passes_ok_def)
next
  case True
  with assms(1) obtain ag1 where
    d: "(case ind_to_remove (expedited_pass ag) n 0 None of None \<Rightarrow> Inr ag
         | Some ind \<Rightarrow> delete_pass ag ind) = Inr ag1"
    and a: "ag' = ag1\<lparr>current_location := Some n, current_action := Some ''riding'',
                     time_spent_at_current_location := 0\<rparr>"
    by (auto simp: agent_boarded_attraction_def split: sum.splits)
  from d assms(2) have "passes_ok ag1"
    by (auto split: option.splits dest: delete_pass_ok)
  then show ?thesis by (simp add: a passes_ok_def)
qed

lemma get_pass_ok:
  "passes_ok ag \<Longrightarrow> loc \<notin> set (expedited_pass ag)
     \<Longrightarrow> passes_ok (assign_expedited_return_time (get_pass ag loc) w)"
  by (simp add: passes_ok_def get_pass_def assign_expedited_return_time_def)


lemma weighted_pick_in:
  "weighted_pick ds rng f c des = Some d \<Longrightarrow> d \<in> fst ` set ds \<or> des = Some d"
  by (induction ds rng f c des rule: weighted_pick.induct) (auto split: if_splits)

lemma select_attraction_loop_get_pass:
  "select_attraction_loop R ag attractions_dict wait_times valid desired st
      = Inr ((Some ''get pass'', location), st')
   \<Longrightarrow> \<exists>d. location = Some d \<and> (d \<in> set valid \<or> desired = Some d)"
proof (induction "length valid" arbitrary: valid desired st rule: less_induct)
  case less
  let ?ds = "map (\<lambda>(attraction_name, parameters). (attraction_name, att_popularity parameters))
                 (filter (\<lambda>(attraction_name, parameters). attraction_name \<in> set valid)
                    attractions_dict)"
  obtain rng st1 where u: "random_uniform R st 0 (real_of_int (sum_list (map snd ?ds))) = (rng, st1)"
    by (cases "random_uniform R st 0 (real_of_int (sum_list (map snd ?ds)))")
  note unfold = less.prems[unfolded select_attraction_loop.simps[of R ag attractions_dict wait_times valid desired st]]
  from unfold have nonempty: "0 < length valid"
    by (auto split: if_splits)
  from unfold nonempty u obtain d where
    pick: "weighted_pick ?ds rng 0 0 desired = Some d"
    by (auto simp: Let_def split: option.splits)
  have d_in: "d \<in> set valid \<or> desired = Some d"
    using weighted_pick_in[OF pick] by auto
  consider (pass) "location = Some d"
    | (rec) "d \<in> set valid" "select_attraction_loop R ag attractions_dict wait_times
                (remove1 d valid) (Some d) st1 = Inr ((Some ''get pass'', location), st')"
    using unfold nonempty u pick
    by (auto simp: Let_def split: if_splits option.splits)
  then show ?case
  proof cases
    case pass
    with d_in show ?thesis by simp
  next
    case rec
    have "length (remove1 d valid) < length valid"
      using rec(1) nonempty by (simp add: length_remove1)
    from less.hyps[OF this rec(2)]
    obtain d' where "location = Some d'" "d' \<in> set (remove1 d valid) \<or> d' = d" by auto
    then show ?thesis using rec(1) by (auto dest: set_remove1_subset[THEN subsetD])
  qed
qed

lemma age_filter_subset:
  "age_filter keep attractions_dict names = Inr kept \<Longrightarrow> set kept \<subseteq> set names"
  by (induction names arbitrary: kept) (auto split: option.splits sum.splits if_splits)

lemma age_class_filter_subset:
  "age_class_filter ag attractions_dict names = Inr kept \<Longrightarrow> set kept \<subseteq> set names"
  by (auto simp: age_class_filter_def split: if_splits dest: age_filter_subset)

lemma decide_attraction_or_activity_valid:
  assumes "decide_attraction_or_activity R st ag attractions_dict = Inr ((t, valid), st')"
  shows "set valid \<inter> set (expedited_pass ag) = {}"
proof -
  obtain coinflip st1 where u: "random_uniform R st 0 1 = (coinflip, st1)"
    by (cases "random_uniform R st 0 1")
  show ?thesis
  proof (cases "valid = []")
    case True
    then show ?thesis by simp
  next
    case False
    let ?cands = "(if allow_repeats ag then
                      filter (\<lambda>attraction. attraction \<notin> set (expedited_pass ag))
                        (map fst attractions_dict)
                    else
                      map fst
                        (filter (\<lambda>(attraction, times_completed).
                                   times_completed = 0 \<and> attraction \<notin> set (expedited_pass ag))
                           (state_attractions ag)))"
    from assms u False have "age_class_filter ag attractions_dict ?cands = Inr valid"
      unfolding decide_attraction_or_activity_def
      by (auto simp: Let_def split: if_splits sum.splits)
    from age_class_filter_subset[OF this] have "set valid \<subseteq> set ?cands" .
    moreover have "set ?cands \<inter> set (expedited_pass ag) = {}" by auto
    ultimately show ?thesis by blast
  qed
qed

lemma lift_returns: "lift r = returns x \<longleftrightarrow> r = Inr x"
  by (simp add: lift_def returns_def)

lemma returns_eq: "returns x = returns y \<longleftrightarrow> x = y"
  by (simp add: returns_def)

lemma raises_not_returns: "raises e \<noteq> returns x"
  by (simp add: returns_def raises_def)

lemma none_not_returns: "None \<noteq> returns x"
  by (simp add: returns_def)

lemma select_activity_traveling:
  "returns ((Some ''traveling'', sel), s) \<noteq> returns ((Some ''get pass'', location), st')"
  by (simp add: returns_def)

lemma make_attraction_activity_decision_get_pass:
  assumes "make_attraction_activity_decision R st ag activities_dict attractions_dict
             = returns ((Some ''get pass'', location), st')"
  shows "\<exists>d. location = Some d \<and> d \<notin> set (expedited_pass ag)"
proof -
  from assms obtain t valid st1 where
    dec: "decide_attraction_or_activity R st ag attractions_dict = Inr ((t, valid), st1)"
    and rest: "(if t = ''activity'' then
            (let (selected_activity, st2) = select_activity_decision R st1 activities_dict
             in returns ((Some ''traveling'', selected_activity), st2))
          else
            bind_result (select_attraction_decision R st1 ag valid attractions_dict)
              (\<lambda>((action, location), st2).
                 if action = None then
                   (let (selected_activity, st3) = select_activity_decision R st2 activities_dict
                    in returns ((Some ''traveling'', selected_activity), st3))
                 else returns ((action, location), st2)))
        = returns ((Some ''get pass'', location), st')"
    unfolding make_attraction_activity_decision_def
    by (auto simp: bind_result_returns lift_returns)
  have nt: "t \<noteq> ''activity''"
    using rest by (auto simp: returns_eq split: prod.splits)
  with rest obtain action loc st2 where
    sel: "select_attraction_decision R st1 ag valid attractions_dict = returns ((action, loc), st2)"
    and fin: "(if action = None then
                   (let (selected_activity, st3) = select_activity_decision R st2 activities_dict
                    in returns ((Some ''traveling'', selected_activity), st3))
                 else returns ((action, loc), st2)) = returns ((Some ''get pass'', location), st')"
    by (auto simp: bind_result_returns)
  from fin have "action = Some ''get pass''" "loc = location"
    by (auto simp: returns_eq split: if_splits prod.splits)
  with sel obtain wt where
    "select_attraction_loop R ag attractions_dict wt valid None st1
       = Inr ((Some ''get pass'', location), st2)"
    unfolding select_attraction_decision_def by (auto simp: bind_result_returns lift_returns)
  from select_attraction_loop_get_pass[OF this]
  obtain d where "location = Some d" "d \<in> set valid" by auto
  with decide_attraction_or_activity_valid[OF dec] show ?thesis by auto
qed

lemma make_state_change_decision_get_pass:
  assumes "make_state_change_decision R st ag attractions_dict activities_dict now is_closed
             = returns ((Some ''get pass'', location), st')"
  shows "\<exists>d. location = Some d \<and> d \<notin> set (expedited_pass ag)"
proof -
  from assms obtain action loc where
    l: "decide_to_leave_park R ag now = Inr (action, loc)"
    and rest: "(if action = None then
                make_attraction_activity_decision R st ag activities_dict attractions_dict
              else returns ((action, loc), st)) = returns ((Some ''get pass'', location), st')"
    unfolding make_state_change_decision_def
    by (auto simp: bind_result_returns lift_returns Let_def split: if_splits)
  from l have "action = None \<or> action = Some ''leaving''"
    by (auto simp: decide_to_leave_park_def Let_def split: option.splits if_splits)
  with rest have "make_attraction_activity_decision R st ag activities_dict attractions_dict
                    = returns ((Some ''get pass'', location), st')"
    by (auto simp: returns_eq)
  then show ?thesis by (rule make_attraction_activity_decision_get_pass)
qed


lemma agents_ok_update: "agents_ok ags \<Longrightarrow> passes_ok ag \<Longrightarrow> agents_ok (ags[k := ag])"
  by (auto simp: agents_ok_def list_all_iff dest: set_update_subset_insert[THEN subsetD])

lemma agents_ok_nth: "agents_ok ags \<Longrightarrow> k < length ags \<Longrightarrow> passes_ok (ags ! k)"
  by (simp add: agents_ok_def list_all_length)

lemma agent_at_ok: "agent_at ags k = Inr ag \<Longrightarrow> agents_ok ags \<Longrightarrow> passes_ok ag"
  by (auto simp: agent_at_def agents_ok_nth split: if_splits)

lemma agent_at_nth: "agent_at ags k = Inr ag \<Longrightarrow> ag = ags ! k \<and> k < length ags"
  by (auto simp: agent_at_def split: if_splits)

lemma update_park_state_ok:
  assumes "update_park_state R p k action location = returns p'"
    and "agents_ok (agents p)"
    and "\<And>ag. action = Some ''get pass'' \<Longrightarrow> agent_at (agents p) k = Inr ag \<Longrightarrow>
           \<exists>d. location = Some d \<and> d \<notin> set (expedited_pass ag)"
  shows "agents_ok (agents p')"
proof -
  from assms(1) obtain ag where ag: "agent_at (agents p) k = Inr ag"
    by (auto simp: update_park_state_def raises_not_returns split: sum.splits)
  note ok = agent_at_ok[OF ag assms(2)]
  note rest = assms(1)[unfolded update_park_state_def ag sum.case]
  consider (leaving) "action = Some ''leaving''" | (traveling) "action = Some ''traveling''"
    | (pass) "action = Some ''get pass''"
    | (other) "action \<noteq> Some ''leaving''" "action \<noteq> Some ''traveling''" "action \<noteq> Some ''get pass''"
    by blast
  then show ?thesis
  proof cases
    case leaving
    with rest obtain ag' atts where
      r: "(if expedited_pass ag \<noteq> [] then return_passes 0 ag (attractions p)
           else Inr (ag, attractions p)) = Inr (ag', atts)"
      and p': "p' = p\<lparr>agents := (agents p)[k := leave_park ag' (time p)], attractions := atts\<rparr>"
      by (auto simp: raises_not_returns returns_eq split: sum.splits)
    from r ok have "passes_ok ag'"
      by (auto split: if_splits dest: return_passes_ok)
    then show ?thesis
      by (simp add: p' agents_ok_update assms(2) simple_steps_ok)
  next
    case traveling
    show ?thesis
    proof (cases location)
      case None
      with rest traveling show ?thesis using assms(2) by (simp add: returns_eq)
    next
      case (Some loc)
      define p1 where "p1 = (case map_of (attractions p) loc of
                              None \<Rightarrow> p
                            | Some a \<Rightarrow>
                                p\<lparr>agents := (agents p)[k := enter_queue ag loc],
                                  attractions :=
                                    AList.update loc (add_to_queue a (agent_id ag)) (attractions p)\<rparr>)"
      have ok1: "agents_ok (agents p1)" and len1: "length (agents p1) = length (agents p)"
        using assms(2) ok
        by (auto simp: p1_def agents_ok_update simple_steps_ok split: option.splits)
      have k: "k < length (agents p1)" using agent_at_nth[OF ag] len1 by simp
      from rest traveling Some have
        "(case map_of (activities p1) loc of
             None \<Rightarrow> returns p1
           | Some act \<Rightarrow>
               (let ag1 = begin_activity (agents p1 ! k) loc;
                    (act', np) = add_to_activity R (numpy_state p1) act (agent_id ag1)
                                   (expedited_return_time ag1)
                in returns (p1\<lparr>agents := (agents p1)[k := ag1],
                               activities := AList.update loc act' (activities p1),
                               numpy_state := np\<rparr>))) = returns p'"
        unfolding p1_def by (simp add: Let_def)
      then show ?thesis
        using ok1 agents_ok_nth[OF ok1 k]
        by (auto simp: returns_eq Let_def agents_ok_update simple_steps_ok
            split: option.splits prod.splits)
    qed
  next
    case pass
    from assms(3)[OF pass ag] obtain d where d: "location = Some d" "d \<notin> set (expedited_pass ag)"
      by auto
    from rest pass d obtain a a' w where
      "p' = p\<lparr>agents := (agents p)[k := assign_expedited_return_time (get_pass ag d) w],
               attractions := AList.update d a' (attractions p)\<rparr>"
      by (auto simp: raises_not_returns none_not_returns returns_eq Let_def split: option.splits)
    then show ?thesis
      using assms(2) get_pass_ok[OF ok d(2)] by (simp add: agents_ok_update)
  next
    case other
    with rest show ?thesis using assms(2) by (simp add: returns_eq)
  qed
qed

lemma decide_agents_ok:
  "decide_agents R p ids = returns p' \<Longrightarrow> agents_ok (agents p) \<Longrightarrow> agents_ok (agents p')"
proof (induction ids arbitrary: p)
  case Nil
  then show ?case by (simp add: returns_eq)
next
  case (Cons k ids)
  from Cons.prems(1) obtain ag closing where
    ag: "agent_at (agents p) k = Inr ag" and c: "park_close p = Some closing"
    by (auto simp: raises_not_returns split: sum.splits option.splits)
  from Cons.prems(1) ag c obtain action location st p1 where
    dec: "make_state_change_decision R (random_state p) ag (attractions p) (activities p)
            (time p) (closing \<le> time p) = returns ((action, location), st)"
    and upd: "update_park_state R
                (p\<lparr>random_state := st,
                   distributed_passes :=
                     (if action = Some ''get pass'' then distributed_passes p + 1
                      else distributed_passes p)\<rparr>) k action location = returns p1"
    and rec: "decide_agents R p1 ids = returns p'"
    by (auto simp: bind_result_returns)
  have "agents_ok (agents p1)"
  proof (rule update_park_state_ok[OF upd])
    show "agents_ok (agents (p\<lparr>random_state := st,
                   distributed_passes :=
                     (if action = Some ''get pass'' then distributed_passes p + 1
                      else distributed_passes p)\<rparr>))"
      using Cons.prems(2) by simp
  next
    fix ag'
    assume g: "action = Some ''get pass''"
      and "agent_at (agents (p\<lparr>random_state := st,
                   distributed_passes :=
                     (if action = Some ''get pass'' then distributed_passes p + 1
                      else distributed_passes p)\<rparr>)) k = Inr ag'"
    then have "ag' = ag" using ag by simp
    with make_state_change_decision_get_pass[OF dec[unfolded g]]
    show "\<exists>d. location = Some d \<and> d \<notin> set (expedited_pass ag')" by simp
  qed
  with Cons.IH[OF rec] show ?case .
qed

lemma arrive_agents_ok:
  "arrive_agents ags first_index now ids = Inr ags' \<Longrightarrow> agents_ok ags \<Longrightarrow> agents_ok ags'"
proof (induction ids arbitrary: ags)
  case Nil
  then show ?case by simp
next
  case (Cons i ids)
  then show ?case
    by (auto simp: Let_def agents_ok_update agents_ok_nth simple_steps_ok split: if_splits)
qed

lemma exit_attraction_agents_ok:
  "exit_attraction_agents ags n ids = Inr ags' \<Longrightarrow> agents_ok ags \<Longrightarrow> agents_ok ags'"
proof (induction ids arbitrary: ags)
  case Nil
  then show ?case by simp
next
  case (Cons k ids)
  from Cons.prems(1) obtain ag ag' where
    "agent_at ags k = Inr ag" "agent_exited_attraction ag n = Inr ag'"
    "exit_attraction_agents (ags[k := ag']) n ids = Inr ags'"
    by (auto split: sum.splits)
  with Cons.IH[of "ags[k := ag']"] Cons.prems(2) show ?case
    by (auto intro!: agents_ok_update dest: agent_at_ok agent_exited_attraction_ok)
qed

lemma exit_activity_agents_ok:
  "exit_activity_agents ags n ids = Inr ags' \<Longrightarrow> agents_ok ags \<Longrightarrow> agents_ok ags'"
proof (induction ids arbitrary: ags)
  case Nil
  then show ?case by simp
next
  case (Cons k ids)
  from Cons.prems(1) obtain ag ag' where
    "agent_at ags k = Inr ag" "agent_exited_activity ag n = Inr ag'"
    "exit_activity_agents (ags[k := ag']) n ids = Inr ags'"
    by (auto split: sum.splits)
  with Cons.IH[of "ags[k := ag']"] Cons.prems(2) show ?case
    by (auto intro!: agents_ok_update dest: agent_at_ok agent_exited_activity_ok)
qed

lemma leave_activity_to_board_ok:
  assumes "leave_activity_to_board p k = Inr p'" and "agents_ok (agents p)"
  shows "agents_ok (agents p') \<and> k < length (agents p')"
proof -
  from assms(1) obtain ag where ag: "agent_at (agents p) k = Inr ag"
    by (auto simp: leave_activity_to_board_def split: sum.splits)
  note n = agent_at_nth[OF ag] and ok = agent_at_ok[OF ag assms(2)]
  show ?thesis
  proof (cases "current_action ag = Some ''browsing''")
    case False
    with assms ag n show ?thesis by (simp add: leave_activity_to_board_def)
  next
    case True
    with assms(1) ag obtain loc act' ag' where
      "agent_exited_activity ag loc = Inr ag'"
      "p' = p\<lparr>activities := AList.update loc act' (activities p), agents := (agents p)[k := ag']\<rparr>"
      by (auto simp: leave_activity_to_board_def split: option.splits sum.splits)
    with assms(2) ok n show ?thesis
      by (auto intro!: agents_ok_update dest: agent_exited_activity_ok)
  qed
qed

lemma board_agents_ok:
  "board_agents p n ids = Inr p' \<Longrightarrow> agents_ok (agents p) \<Longrightarrow> agents_ok (agents p')"
proof (induction ids arbitrary: p)
  case Nil
  then show ?case by simp
next
  case (Cons k ids)
  from Cons.prems(1) obtain p1 ag' redeem where
    l: "leave_activity_to_board p k = Inr p1"
    and b: "agent_boarded_attraction (agents p1 ! k) n = Inr (ag', redeem)"
    and rec: "board_agents
                 (p1\<lparr>agents := (agents p1)[k := ag'],
                     redeemed_passes := (if redeem then redeemed_passes p1 + 1 else redeemed_passes p1)\<rparr>)
                 n ids = Inr p'"
    by (auto split: sum.splits)
  from leave_activity_to_board_ok[OF l Cons.prems(2)]
  have ok1: "agents_ok (agents p1)" and k: "k < length (agents p1)" by auto
  from agent_boarded_attraction_ok[OF b agents_ok_nth[OF ok1 k]] have "passes_ok ag'" .
  with ok1 have "agents_ok (agents (p1\<lparr>agents := (agents p1)[k := ag'],
                     redeemed_passes := (if redeem then redeemed_passes p1 + 1 else redeemed_passes p1)\<rparr>))"
    by (simp add: agents_ok_update)
  from Cons.IH[OF rec this] show ?case .
qed

lemma process_attractions_ok:
  "process_attractions p names = Inr p' \<Longrightarrow> agents_ok (agents p) \<Longrightarrow> agents_ok (agents p')"
proof (induction names arbitrary: p)
  case Nil
  then show ?case by simp
next
  case (Cons n names)
  from Cons.prems(1) obtain a a' ex ld ags p1 where
    "exit_attraction_agents (agents p) n ex = Inr ags"
    and b: "board_agents (p\<lparr>attractions := AList.update n a' (attractions p), agents := ags\<rparr>) n ld
              = Inr p1"
    and rec: "process_attractions p1 names = Inr p'"
    by (auto split: sum.splits prod.splits)
  from exit_attraction_agents_ok[OF this(1) Cons.prems(2)]
  have "agents_ok (agents (p\<lparr>attractions := AList.update n a' (attractions p), agents := ags\<rparr>))"
    by simp
  from Cons.IH[OF rec board_agents_ok[OF b this]] show ?case .
qed

lemma process_activities_ok:
  "process_activities p names = Inr p' \<Longrightarrow> agents_ok (agents p) \<Longrightarrow> agents_ok (agents p')"
proof (induction names arbitrary: p)
  case Nil
  then show ?case by simp
next
  case (Cons n names)
  from Cons.prems(1) obtain act' ex ags where
    e: "exit_activity_agents (agents p) n ex = Inr ags"
    and rec: "process_activities
                (p\<lparr>activities := AList.update n act' (activities p), agents := ags\<rparr>) names = Inr p'"
    by (auto split: sum.splits prod.splits)
  from exit_activity_agents_ok[OF e Cons.prems(2)]
  have "agents_ok (agents (p\<lparr>activities := AList.update n act' (activities p), agents := ags\<rparr>))"
    by simp
  from Cons.IH[OF rec this] show ?case .
qed

lemma agents_ok_pass_time: "agents_ok ags \<Longrightarrow> agents_ok (map agent_pass_time ags)"
  by (simp add: agents_ok_def list_all_iff simple_steps_ok)

lemma release_arrivals_ok:
  "release_arrivals p = Inr p1 \<Longrightarrow> agents_ok (agents p) \<Longrightarrow> agents_ok (agents p1)"
  by (auto simp: release_arrivals_def split: sum.splits dest: arrive_agents_ok)

lemma park_step_ok:
  assumes "park_step R p = returns p'" and "agents_ok (agents p)"
  shows "agents_ok (agents p')"
proof -
  from assms(1) obtain p1 p2 p3 p4 atts where
    r: "release_arrivals p = Inr p1"
    and d: "decide_agents R p1 (get_idle_agent_ids p1) = returns p2"
    and a: "process_attractions p2 (map fst (attractions p2)) = Inr p3"
    and b: "process_activities p3 (map fst (activities p3)) = Inr p4"
    and p': "p' = (calculate_total_active_agents
                    (p4\<lparr>agents := map agent_pass_time (agents p4),
                        attractions := atts,
                        activities :=
                          map (\<lambda>(activity_name, act).
                                 (activity_name,
                                  activity_store_history (activity_pass_time act) (time p4)))
                            (activities p4)\<rparr>))
                  \<lparr>time := time (calculate_total_active_agents
                    (p4\<lparr>agents := map agent_pass_time (agents p4),
                        attractions := atts,
                        activities :=
                          map (\<lambda>(activity_name, act).
                                 (activity_name,
                                  activity_store_history (activity_pass_time act) (time p4)))
                            (activities p4)\<rparr>)) + 1\<rparr>"
    unfolding park_step_def
    by (auto simp: bind_result_returns lift_returns returns_eq Let_def)
  from release_arrivals_ok[OF r assms(2)] have "agents_ok (agents p1)" .
  from decide_agents_ok[OF d this] have "agents_ok (agents p2)" .
  from process_attractions_ok[OF a this] have "agents_ok (agents p3)" .
  from process_activities_ok[OF b this] have "agents_ok (agents p4)" .
  then show ?thesis
    by (simp add: p' calculate_total_active_agents_def agents_ok_pass_time)
qed

lemma initialize_agent_ok:
  "initialize_agent R st seed ds exp_ability thr limit new_id attraction_names activity_names
     = Inr (ag, st') \<Longrightarrow> passes_ok ag"
  by (auto simp: initialize_agent_def passes_ok_def Let_def
      split: if_splits prod.splits option.splits)

lemma store_agent_ok: "agents_ok ags \<Longrightarrow> passes_ok ag \<Longrightarrow> agents_ok (store_agent ags k ag)"
  by (auto simp: store_agent_def agents_ok_update) (simp add: agents_ok_def)

lemma make_agents_ok:
  "make_agents R p ds pct thr limit ids = Inr p' \<Longrightarrow> agents_ok (agents p) \<Longrightarrow> agents_ok (agents p')"
proof (induction ids arbitrary: p)
  case Nil
  then show ?case by simp
next
  case (Cons new_id ids)
  obtain draw st1 where u: "random_uniform R (random_seed p + int new_id, 0) 0 1 = (draw, st1)"
    by (cases "random_uniform R (random_seed p + int new_id, 0) 0 1")
  from Cons.prems(1) u obtain ag st2 where
    i: "initialize_agent R st1 (random_seed p) ds (draw < pct) thr limit new_id
          (map c_name (attraction_list p)) (map ac_name (activity_list p)) = Inr (ag, st2)"
    and rec: "make_agents R (p\<lparr>agents := store_agent (agents p) new_id ag, random_state := st2\<rparr>)
                ds pct thr limit ids = Inr p'"
    by (auto simp: Let_def split: sum.splits)
  have "agents_ok (agents (p\<lparr>agents := store_agent (agents p) new_id ag, random_state := st2\<rparr>))"
    using Cons.prems(2) initialize_agent_ok[OF i] by (simp add: store_agent_ok)
  from Cons.IH[OF rec this] show ?case .
qed

lemma sample_hours_agents:
  "sample_hours R p daily_total hs = Inr p' \<Longrightarrow> agents p' = agents p"
proof (induction hs arbitrary: p)
  case Nil
  then show ?case by simp
next
  case (Cons h hs)
  obtain hour key pct where h: "h = (hour, key, pct)" by (cases h)
  from Cons.prems show ?case
    unfolding h by (auto simp: Let_def split: if_splits dest!: Cons.IH)
qed

lemma generate_arrival_schedule_agents:
  "generate_arrival_schedule R p arrival_seed daily_total perfect = Inr p' \<Longrightarrow> agents p' = agents p"
  by (auto simp: generate_arrival_schedule_def Let_def
      split: if_splits sum.splits prod.splits dest: sample_hours_agents)

lemma apply_park_call_ok:
  assumes "apply_park_call R p c = returns p'" and "agents_ok (agents p)"
  shows "agents_ok (agents p')"
proof (cases c)
  case (Generate_arrival_schedule arrival_seed daily_total perfect)
  with assms show ?thesis
    by (auto simp: lift_returns dest: generate_arrival_schedule_agents)
next
  case (Generate_agents ds pct thr limit)
  with assms show ?thesis
    by (auto simp: lift_returns generate_agents_def split: if_splits dest: make_agents_ok)
next
  case Generate_attractions
  with assms show ?thesis
    by (auto simp: lift_returns generate_attractions_def Let_def split: sum.splits)
next
  case Generate_activities
  with assms show ?thesis
    by (auto simp: lift_returns generate_activities_def Let_def split: sum.splits)
next
  case Step_park
  with assms show ?thesis by (auto dest: park_step_ok)
qed

lemma apply_park_calls_ok:
  "apply_park_calls R p cs = returns p' \<Longrightarrow> agents_ok (agents p) \<Longrightarrow> agents_ok (agents p')"
proof (induction cs arbitrary: p)
  case Nil
  then show ?case by (simp add: returns_eq)
next
  case (Cons c cs)
  then show ?case by (auto simp: bind_result_returns dest: apply_park_call_ok)
qed

lemma subseq_list_del: "list_del i xs = Inr ys \<Longrightarrow> subseq ys xs"
proof -
  assume "list_del i xs = Inr ys"
  then have i: "i < length xs" and ys: "ys = take i xs @ drop (Suc i) xs"
    by (auto simp: list_del_def split: if_splits)
  have "subseq (drop (Suc i) xs) (xs ! i # drop (Suc i) xs)" by (rule subseq_Cons') simp
  then have "subseq (drop (Suc i) xs) (drop i xs)" using i by (simp add: Cons_nth_drop_Suc)
  then have "subseq (take i xs @ drop (Suc i) xs) (take i xs @ drop i xs)"
    by (simp only: subseq_append')
  then show ?thesis by (simp add: ys)
qed

lemma zip_list_del:
  assumes "list_del i xs = Inr xs'" and "list_del i ys = Inr ys'"
  shows "list_del i (zip xs ys) = Inr (zip xs' ys')"
proof -
  from assms have i: "i < length xs" "i < length ys"
    and d: "xs' = take i xs @ drop (Suc i) xs" "ys' = take i ys @ drop (Suc i) ys"
    by (auto simp: list_del_def split: if_splits)
  have "zip xs' ys' = zip (take i xs) (take i ys) @ zip (drop (Suc i) xs) (drop (Suc i) ys)"
    unfolding d using i by (intro zip_append) simp
  then show ?thesis using i by (simp add: list_del_def take_zip drop_zip)
qed

lemma delete_pass_held:
  assumes "delete_pass ag ind = Inr ag'"
  shows "list_del ind (held ag) = Inr (held ag')"
proof -
  from assms obtain ps ts where p: "list_del ind (expedited_pass ag) = Inr ps"
    and t: "list_del ind (expedited_return_time ag) = Inr ts"
    and a: "ag' = ag\<lparr>expedited_pass := ps, expedited_return_time := ts\<rparr>"
    by (auto simp: delete_pass_def split: sum.splits)
  from zip_list_del[OF p t] show ?thesis by (simp add: held_def a)
qed

lemma delete_pass_subseq: "delete_pass ag ind = Inr ag' \<Longrightarrow> subseq (held ag') (held ag)"
  by (drule delete_pass_held) (rule subseq_list_del)

lemma return_exp_pass_subseq:
  "return_exp_pass ag attraction = Inr ag' \<Longrightarrow> subseq (held ag') (held ag)"
  by (auto simp: return_exp_pass_def split: option.splits dest: delete_pass_subseq)

lemma return_passes_subseq:
  "return_passes i ag attractions_dict = Inr (ag', attractions_dict') \<Longrightarrow> subseq (held ag') (held ag)"
proof (induction i ag attractions_dict rule: return_passes.induct)
  case (1 i ag attractions_dict)
  show ?case
  proof (cases "i < length (expedited_pass ag)")
    case False
    with "1.prems" show ?thesis by (simp add: return_passes.simps[of i ag])
  next
    case True
    with "1.prems"(1) obtain a a' ag1 where
      m: "map_of attractions_dict (expedited_pass ag ! i) = Some a"
      and r: "return_pass a (agent_id ag) = Inr a'"
      and e: "return_exp_pass ag (expedited_pass ag ! i) = Inr ag1"
      and rec: "return_passes (Suc i) ag1 (AList.update (expedited_pass ag ! i) a' attractions_dict)
                  = Inr (ag', attractions_dict')"
      by (subst (asm) return_passes.simps) (auto split: option.splits sum.splits)
    from "1.IH"[OF True m r e rec] return_exp_pass_subseq[OF e] show ?thesis
      by (rule subseq_order.trans)
  qed
qed

lemma simple_steps_held:
  "held (arrive_at_park ag now) = held ag"
  "held (leave_park ag now) = held ag"
  "held (enter_queue ag attraction) = held ag"
  "held (begin_activity ag activity) = held ag"
  by (simp_all add: held_def arrive_at_park_def leave_park_def enter_queue_def begin_activity_def)

lemma agent_exited_attraction_held:
  "agent_exited_attraction ag n = Inr ag' \<Longrightarrow> held ag' = held ag"
  by (auto simp: agent_exited_attraction_def held_def split: option.splits)

lemma agent_exited_activity_held:
  "agent_exited_activity ag n = Inr ag' \<Longrightarrow> held ag' = held ag"
  by (auto simp: agent_exited_activity_def held_def split: option.splits)

lemma agent_boarded_attraction_subseq:
  assumes "agent_boarded_attraction ag n = Inr (ag', redeem)"
  shows "subseq (held ag') (held ag)"
proof (cases "n \<in> set (expedited_pass ag)")
  case False
  with assms show ?thesis by (auto simp: agent_boarded_attraction_def held_def)
next
  case True
  with assms obtain ag1 where
    d: "(case ind_to_remove (expedited_pass ag) n 0 None of None \<Rightarrow> Inr ag
         | Some ind \<Rightarrow> delete_pass ag ind) = Inr ag1"
    and a: "ag' = ag1\<lparr>current_location := Some n, current_action := Some ''riding'',
                     time_spent_at_current_location := 0\<rparr>"
    by (auto simp: agent_boarded_attraction_def split: sum.splits)
  from d have "subseq (held ag1) (held ag)"
    by (auto split: option.splits dest: delete_pass_subseq)
  then show ?thesis by (simp add: a held_def)
qed

lemma get_pass_held:
  "passes_ok ag \<Longrightarrow> held (assign_expedited_return_time (get_pass ag loc) w) = held ag @ [(loc, w)]"
  by (simp add: passes_ok_def held_def get_pass_def assign_expedited_return_time_def)

lemma agent_pass_time_held:
  assumes "passes_ok ag"
  shows "\<exists>d. (d = 0 \<or> d = 1)
           \<and> held (agent_pass_time ag) = map (\<lambda>(attraction, countdown). (attraction, countdown - d)) (held ag)"
proof (cases "within_park ag \<and> expedited_pass ag \<noteq> []")
  case True
  then have "held (agent_pass_time ag) = map (\<lambda>(attraction, countdown). (attraction, countdown - 1)) (held ag)"
    by (simp add: agent_pass_time_def held_def Let_def zip_map2)
  then show ?thesis by blast
next
  case False
  then have "held (agent_pass_time ag) = held ag"
    using assms by (auto simp: agent_pass_time_def held_def Let_def passes_ok_def)
  then have "held (agent_pass_time ag) = map (\<lambda>(attraction, countdown). (attraction, countdown - 0)) (held ag)"
    by simp
  then show ?thesis by blast
qed


lemma sub_held_refl: "sub_held ags ags"
  by (simp add: sub_held_def)

lemma sub_held_update:
  assumes "sub_held ags0 ags" and "k < length ags" and "subseq (held ag') (held (ags ! k))"
  shows "sub_held ags0 (ags[k := ag'])"
  unfolding sub_held_def
proof (intro conjI allI impI)
  show "length ags0 \<le> length (ags[k := ag'])" using assms(1) by (simp add: sub_held_def)
next
  fix j assume j: "j < length ags0"
  then have s: "subseq (held (ags ! j)) (held (ags0 ! j))" using assms(1) by (simp add: sub_held_def)
  show "subseq (held (ags[k := ag'] ! j)) (held (ags0 ! j))"
  proof (cases "j = k")
    case True
    then have "ags[k := ag'] ! j = ag'" using assms(2) by simp
    with subseq_order.trans[OF assms(3) s[unfolded True]] True show ?thesis by simp
  next
    case False
    then show ?thesis using s by simp
  qed
qed

lemma sub_held_same:
  "sub_held ags0 ags \<Longrightarrow> k < length ags \<Longrightarrow> held ag' = held (ags ! k) \<Longrightarrow> sub_held ags0 (ags[k := ag'])"
  by (rule sub_held_update) simp_all

lemma arrive_agents_held:
  "arrive_agents ags first_index now ids = Inr ags' \<Longrightarrow> map held ags' = map held ags"
proof (induction ids arbitrary: ags)
  case Nil
  then show ?case by simp
next
  case (Cons i ids)
  define k where "k = nat (first_index + int i)"
  from Cons.prems have k: "k < length ags"
    and rec: "arrive_agents (ags[k := arrive_at_park (ags ! k) now]) first_index now ids = Inr ags'"
    by (auto simp: Let_def k_def split: if_splits)
  have "map held (ags[k := arrive_at_park (ags ! k) now]) = (map held ags)[k := map held ags ! k]"
    using k by (simp add: map_update simple_steps_held)
  with Cons.IH[OF rec] show ?case by simp
qed

lemma release_arrivals_held:
  "release_arrivals p = Inr p1 \<Longrightarrow> map held (agents p1) = map held (agents p)"
  by (auto simp: release_arrivals_def split: sum.splits dest: arrive_agents_held)

lemma exit_attraction_agents_held:
  "exit_attraction_agents ags n ids = Inr ags' \<Longrightarrow> sub_held ags0 ags \<Longrightarrow> sub_held ags0 ags'"
proof (induction ids arbitrary: ags)
  case Nil
  then show ?case by simp
next
  case (Cons k ids)
  from Cons.prems(1) obtain ag ag' where
    a: "agent_at ags k = Inr ag" and e: "agent_exited_attraction ag n = Inr ag'"
    and rec: "exit_attraction_agents (ags[k := ag']) n ids = Inr ags'"
    by (auto split: sum.splits)
  from agent_at_nth[OF a] agent_exited_attraction_held[OF e]
  have "sub_held ags0 (ags[k := ag'])" by (intro sub_held_same[OF Cons.prems(2)]) simp_all
  from Cons.IH[OF rec this] show ?case .
qed

lemma exit_activity_agents_held:
  "exit_activity_agents ags n ids = Inr ags' \<Longrightarrow> sub_held ags0 ags \<Longrightarrow> sub_held ags0 ags'"
proof (induction ids arbitrary: ags)
  case Nil
  then show ?case by simp
next
  case (Cons k ids)
  from Cons.prems(1) obtain ag ag' where
    a: "agent_at ags k = Inr ag" and e: "agent_exited_activity ag n = Inr ag'"
    and rec: "exit_activity_agents (ags[k := ag']) n ids = Inr ags'"
    by (auto split: sum.splits)
  from agent_at_nth[OF a] agent_exited_activity_held[OF e]
  have "sub_held ags0 (ags[k := ag'])" by (intro sub_held_same[OF Cons.prems(2)]) simp_all
  from Cons.IH[OF rec this] show ?case .
qed

lemma leave_activity_to_board_held:
  assumes "leave_activity_to_board p k = Inr p'" and "sub_held ags0 (agents p)"
  shows "sub_held ags0 (agents p') \<and> k < length (agents p')"
proof -
  from assms(1) obtain ag where ag: "agent_at (agents p) k = Inr ag"
    by (auto simp: leave_activity_to_board_def split: sum.splits)
  note n = agent_at_nth[OF ag]
  show ?thesis
  proof (cases "current_action ag = Some ''browsing''")
    case False
    with assms ag n show ?thesis by (simp add: leave_activity_to_board_def)
  next
    case True
    with assms(1) ag obtain loc act' ag' where
      e: "agent_exited_activity ag loc = Inr ag'"
      and p': "p' = p\<lparr>activities := AList.update loc act' (activities p), agents := (agents p)[k := ag']\<rparr>"
      by (auto simp: leave_activity_to_board_def split: option.splits sum.splits)
    from n agent_exited_activity_held[OF e]
    have "sub_held ags0 ((agents p)[k := ag'])" by (intro sub_held_same[OF assms(2)]) simp_all
    then show ?thesis using n by (simp add: p')
  qed
qed

lemma board_agents_held:
  "board_agents p n ids = Inr p' \<Longrightarrow> sub_held ags0 (agents p) \<Longrightarrow> sub_held ags0 (agents p')"
proof (induction ids arbitrary: p)
  case Nil
  then show ?case by simp
next
  case (Cons k ids)
  from Cons.prems(1) obtain p1 ag' redeem where
    l: "leave_activity_to_board p k = Inr p1"
    and b: "agent_boarded_attraction (agents p1 ! k) n = Inr (ag', redeem)"
    and rec: "board_agents
                 (p1\<lparr>agents := (agents p1)[k := ag'],
                     redeemed_passes := (if redeem then redeemed_passes p1 + 1 else redeemed_passes p1)\<rparr>)
                 n ids = Inr p'"
    by (auto split: sum.splits)
  from leave_activity_to_board_held[OF l Cons.prems(2)]
  have s1: "sub_held ags0 (agents p1)" and k: "k < length (agents p1)" by auto
  from sub_held_update[OF s1 k agent_boarded_attraction_subseq[OF b]]
  have "sub_held ags0 (agents (p1\<lparr>agents := (agents p1)[k := ag'],
                     redeemed_passes := (if redeem then redeemed_passes p1 + 1 else redeemed_passes p1)\<rparr>))"
    by simp
  from Cons.IH[OF rec this] show ?case .
qed

lemma process_attractions_held:
  "process_attractions p names = Inr p' \<Longrightarrow> sub_held ags0 (agents p) \<Longrightarrow> sub_held ags0 (agents p')"
proof (induction names arbitrary: p)
  case Nil
  then show ?case by simp
next
  case (Cons n names)
  from Cons.prems(1) obtain a a' ex ld ags p1 where
    "exit_attraction_agents (agents p) n ex = Inr ags"
    and b: "board_agents (p\<lparr>attractions := AList.update n a' (attractions p), agents := ags\<rparr>) n ld
              = Inr p1"
    and rec: "process_attractions p1 names = Inr p'"
    by (auto split: sum.splits prod.splits)
  from exit_attraction_agents_held[OF this(1) Cons.prems(2)]
  have "sub_held ags0 (agents (p\<lparr>attractions := AList.update n a' (attractions p), agents := ags\<rparr>))"
    by simp
  from Cons.IH[OF rec board_agents_held[OF b this]] show ?case .
qed

lemma process_activities_held:
  "process_activities p names = Inr p' \<Longrightarrow> sub_held ags0 (agents p) \<Longrightarrow> sub_held ags0 (agents p')"
proof (induction names arbitrary: p)
  case Nil
  then show ?case by simp
next
  case (Cons n names)
  from Cons.prems(1) obtain act' ex ags where
    e: "exit_activity_agents (agents p) n ex = Inr ags"
    and rec: "process_activities
                (p\<lparr>activities := AList.update n act' (activities p), agents := ags\<rparr>) names = Inr p'"
    by (auto split: sum.splits prod.splits)
  from exit_activity_agents_held[OF e Cons.prems(2)]
  have "sub_held ags0 (agents (p\<lparr>activities := AList.update n act' (activities p), agents := ags\<rparr>))"
    by simp
  from Cons.IH[OF rec this] show ?case .
qed

lemma decided_refl: "decided old old"
  unfolding decided_def issued_to_def by (intro exI[of _ "[]"]) simp

lemma decided_subseq: "subseq new old \<Longrightarrow> decided old new"
  unfolding decided_def issued_to_def by (intro exI[of _ "[]"]) simp

lemma decided_issue: "attraction \<notin> fst ` set old \<Longrightarrow> decided old (old @ [(attraction, w)])"
  unfolding decided_def issued_to_def by (intro exI[of _ "[(attraction, w)]"]) simp

lemma update_park_state_held:
  assumes "update_park_state R p k action location = returns p'"
    and "agents_ok (agents p)"
    and "\<And>ag. action = Some ''get pass'' \<Longrightarrow> agent_at (agents p) k = Inr ag \<Longrightarrow>
           \<exists>d. location = Some d \<and> d \<notin> set (expedited_pass ag)"
  shows "\<exists>ag'. agents p' = (agents p)[k := ag'] \<and> k < length (agents p)
               \<and> decided (held (agents p ! k)) (held ag')"
proof -
  from assms(1) obtain ag where ag: "agent_at (agents p) k = Inr ag"
    by (auto simp: update_park_state_def raises_not_returns split: sum.splits)
  note ok = agent_at_ok[OF ag assms(2)]
  from agent_at_nth[OF ag] have n: "ag = agents p ! k" and k: "k < length (agents p)" by auto
  have same: "\<exists>ag'. agents p = (agents p)[k := ag'] \<and> k < length (agents p)
               \<and> decided (held (agents p ! k)) (held ag')"
    using k by (intro exI[of _ "agents p ! k"]) (simp add: decided_refl)
  note rest = assms(1)[unfolded update_park_state_def ag sum.case]
  consider (leaving) "action = Some ''leaving''" | (traveling) "action = Some ''traveling''"
    | (pass) "action = Some ''get pass''"
    | (other) "action \<noteq> Some ''leaving''" "action \<noteq> Some ''traveling''" "action \<noteq> Some ''get pass''"
    by blast
  then show ?thesis
  proof cases
    case leaving
    with rest obtain ag' atts where
      r: "(if expedited_pass ag \<noteq> [] then return_passes 0 ag (attractions p)
           else Inr (ag, attractions p)) = Inr (ag', atts)"
      and p': "p' = p\<lparr>agents := (agents p)[k := leave_park ag' (time p)], attractions := atts\<rparr>"
      by (auto simp: raises_not_returns returns_eq split: sum.splits)
    from r have "subseq (held ag') (held ag)"
      by (auto split: if_splits dest: return_passes_subseq)
    then have "decided (held (agents p ! k)) (held (leave_park ag' (time p)))"
      unfolding n by (simp add: simple_steps_held decided_subseq)
    then show ?thesis using k by (intro exI[of _ "leave_park ag' (time p)"]) (simp add: p')
  next
    case traveling
    show ?thesis
    proof (cases location)
      case None
      with rest traveling have "p' = p" by (simp add: returns_eq)
      with same show ?thesis by simp
    next
      case (Some loc)
      define p1 where "p1 = (case map_of (attractions p) loc of
                              None \<Rightarrow> p
                            | Some a \<Rightarrow>
                                p\<lparr>agents := (agents p)[k := enter_queue ag loc],
                                  attractions :=
                                    AList.update loc (add_to_queue a (agent_id ag)) (attractions p)\<rparr>)"
      have p1: "agents p1 = (agents p)[k := agents p1 ! k]"
        and h1: "held (agents p1 ! k) = held (agents p ! k)"
        using k n by (auto simp: p1_def simple_steps_held split: option.splits)
      from rest traveling Some have
        "(case map_of (activities p1) loc of
             None \<Rightarrow> returns p1
           | Some act \<Rightarrow>
               (let ag1 = begin_activity (agents p1 ! k) loc;
                    (act', np) = add_to_activity R (numpy_state p1) act (agent_id ag1)
                                   (expedited_return_time ag1)
                in returns (p1\<lparr>agents := (agents p1)[k := ag1],
                               activities := AList.update loc act' (activities p1),
                               numpy_state := np\<rparr>))) = returns p'"
        unfolding p1_def by (simp add: Let_def)
      then consider "agents p' = agents p1"
        | "agents p' = (agents p1)[k := begin_activity (agents p1 ! k) loc]"
        by (auto simp: returns_eq Let_def split: option.splits prod.splits)
      then show ?thesis
      proof cases
        case 1
        with p1 h1 k show ?thesis
          by (intro exI[of _ "agents p1 ! k"]) (simp add: decided_refl)
      next
        case 2
        then have "agents p' = (agents p)[k := begin_activity (agents p1 ! k) loc]"
          by (subst (asm) p1) simp
        with h1 k show ?thesis
          by (intro exI[of _ "begin_activity (agents p1 ! k) loc"])
             (simp add: decided_refl simple_steps_held)
      qed
    qed
  next
    case pass
    from assms(3)[OF pass ag] obtain d where d: "location = Some d" "d \<notin> set (expedited_pass ag)"
      by auto
    from rest pass d obtain a a' w where
      p': "p' = p\<lparr>agents := (agents p)[k := assign_expedited_return_time (get_pass ag d) w],
               attractions := AList.update d a' (attractions p)\<rparr>"
      by (auto simp: raises_not_returns none_not_returns returns_eq Let_def split: option.splits)
    from d(2) have "d \<notin> fst ` set (held ag)"
      by (auto simp: held_def dest: set_zip_leftD)
    then have "decided (held (agents p ! k)) (held (assign_expedited_return_time (get_pass ag d) w))"
      unfolding n[symmetric] get_pass_held[OF ok] by (rule decided_issue)
    then show ?thesis
      using k by (intro exI[of _ "assign_expedited_return_time (get_pass ag d) w"]) (simp add: p')
  next
    case other
    with rest have "p' = p" by (simp add: returns_eq)
    with same show ?thesis by simp
  qed
qed

lemma decide_agents_held:
  assumes "decide_agents R p ids = returns p'" and "agents_ok (agents p)" and "distinct ids"
    and "length (agents p) = length ags0"
    and "\<forall>k < length ags0. decided (held (ags0 ! k)) (held (agents p ! k))"
    and "\<forall>k \<in> set ids. held (agents p ! k) = held (ags0 ! k)"
  shows "length (agents p') = length ags0
         \<and> (\<forall>k < length ags0. decided (held (ags0 ! k)) (held (agents p' ! k)))"
  using assms
proof (induction ids arbitrary: p)
  case Nil
  then show ?case by (simp add: returns_eq)
next
  case (Cons k ids)
  from Cons.prems(1) obtain ag closing where
    ag: "agent_at (agents p) k = Inr ag" and c: "park_close p = Some closing"
    by (auto simp: raises_not_returns split: sum.splits option.splits)
  from Cons.prems(1) ag c obtain action location st p1 where
    dec: "make_state_change_decision R (random_state p) ag (attractions p) (activities p)
            (time p) (closing \<le> time p) = returns ((action, location), st)"
    and upd: "update_park_state R
                (p\<lparr>random_state := st,
                   distributed_passes :=
                     (if action = Some ''get pass'' then distributed_passes p + 1
                      else distributed_passes p)\<rparr>) k action location = returns p1"
    and rec: "decide_agents R p1 ids = returns p'"
    by (auto simp: bind_result_returns)
  let ?p = "p\<lparr>random_state := st,
                   distributed_passes :=
                     (if action = Some ''get pass'' then distributed_passes p + 1
                      else distributed_passes p)\<rparr>"
  have okp: "agents_ok (agents ?p)" using Cons.prems(2) by simp
  have gp: "\<exists>d. location = Some d \<and> d \<notin> set (expedited_pass ag')"
    if g: "action = Some ''get pass''" and "agent_at (agents ?p) k = Inr ag'" for ag'
  proof -
    from that ag have "ag' = ag" by simp
    with make_state_change_decision_get_pass[OF dec[unfolded g]] show ?thesis by simp
  qed
  have ok1: "agents_ok (agents p1)" by (rule update_park_state_ok[OF upd okp gp])
  from update_park_state_held[OF upd okp gp] obtain ag' where
    a1: "agents p1 = (agents p)[k := ag']" and k: "k < length (agents p)"
    and d1: "decided (held (agents p ! k)) (held ag')"
    by auto
  have hk: "held (agents p ! k) = held (ags0 ! k)" using Cons.prems(6) by simp
  show ?case
  proof (rule Cons.IH[OF rec ok1])
    show "distinct ids" using Cons.prems(3) by simp
    show "length (agents p1) = length ags0" using Cons.prems(4) by (simp add: a1)
    show "\<forall>j<length ags0. decided (held (ags0 ! j)) (held (agents p1 ! j))"
    proof (intro allI impI)
      fix j assume j: "j < length ags0"
      show "decided (held (ags0 ! j)) (held (agents p1 ! j))"
      proof (cases "j = k")
        case True
        with d1 hk k show ?thesis by (simp add: a1)
      next
        case False
        with Cons.prems(5) j show ?thesis by (simp add: a1)
      qed
    qed
    show "\<forall>j\<in>set ids. held (agents p1 ! j) = held (ags0 ! j)"
    proof
      fix j assume j: "j \<in> set ids"
      then have "j \<noteq> k" using Cons.prems(3) by auto
      with Cons.prems(6) j show "held (agents p1 ! j) = held (ags0 ! j)" by (simp add: a1)
    qed
  qed
qed

lemma distinct_idle_ids: "distinct (get_idle_agent_ids p)"
  by (simp add: get_idle_agent_ids_def)

lemma park_step_aligned:
  assumes "park_step R p = returns p'" and "agents_ok (agents p)" and "k < length (agents p)"
  shows "k < length (agents p') \<and> aligned_step (held (agents p ! k)) (held (agents p' ! k))"
proof -
  from assms(1) obtain p1 p2 p3 p4 where
    r: "release_arrivals p = Inr p1"
    and d: "decide_agents R p1 (get_idle_agent_ids p1) = returns p2"
    and a: "process_attractions p2 (map fst (attractions p2)) = Inr p3"
    and b: "process_activities p3 (map fst (activities p3)) = Inr p4"
    and p': "agents p' = map agent_pass_time (agents p4)"
    unfolding park_step_def
    by (auto simp: bind_result_returns lift_returns returns_eq Let_def calculate_total_active_agents_def)
  from release_arrivals_ok[OF r assms(2)] have ok1: "agents_ok (agents p1)" .
  from decide_agents_ok[OF d ok1] have ok2: "agents_ok (agents p2)" .
  from process_attractions_ok[OF a ok2] have ok3: "agents_ok (agents p3)" .
  from process_activities_ok[OF b ok3] have ok4: "agents_ok (agents p4)" .
  note m1 = release_arrivals_held[OF r]
  from m1 have l1: "length (agents p1) = length (agents p)" by (rule map_eq_imp_length_eq)
  have "map held (agents p1) ! k = map held (agents p) ! k" by (simp only: m1)
  then have h1: "held (agents p1 ! k) = held (agents p ! k)" using assms(3) l1 by simp
  have "length (agents p2) = length (agents p1)
         \<and> (\<forall>k < length (agents p1). decided (held (agents p1 ! k)) (held (agents p2 ! k)))"
    by (rule decide_agents_held[OF d ok1 distinct_idle_ids]) (simp_all add: decided_refl)
  then have l2: "length (agents p2) = length (agents p)"
    and d2: "decided (held (agents p ! k)) (held (agents p2 ! k))"
    using l1 h1 assms(3) by auto
  from process_attractions_held[OF a sub_held_refl]
  have "sub_held (agents p2) (agents p3)" .
  from process_activities_held[OF b this] have "sub_held (agents p2) (agents p4)" .
  then have l4: "length (agents p) \<le> length (agents p4)"
    and s4: "subseq (held (agents p4 ! k)) (held (agents p2 ! k))"
    using l2 assms(3) by (auto simp: sub_held_def)
  from d2 obtain issued where i: "issued_to (held (agents p ! k)) issued"
    and s2: "subseq (held (agents p2 ! k)) (held (agents p ! k) @ issued)"
    by (auto simp: decided_def)
  from subseq_order.trans[OF s4 s2]
  have kept: "subseq (held (agents p4 ! k)) (held (agents p ! k) @ issued)" .
  have k4: "k < length (agents p4)" using l4 assms(3) by simp
  from agent_pass_time_held[OF agents_ok_nth[OF ok4 k4]] obtain t where
    t: "t = 0 \<or> t = 1"
    and h: "held (agent_pass_time (agents p4 ! k))
              = map (\<lambda>(attraction, countdown). (attraction, countdown - t)) (held (agents p4 ! k))"
    by auto
  have "aligned_step (held (agents p ! k)) (held (agents p' ! k))"
    unfolding aligned_step_def
    using t i kept h k4
    by (intro exI[of _ t] exI[of _ issued] exI[of _ "held (agents p4 ! k)"]) (simp add: p')
  then show ?thesis using k4 by (simp add: p')
qed


lemma initialize_agent_held:
  "initialize_agent R st seed ds exp_ability thr limit new_id attraction_names activity_names
     = Inr (ag, st') \<Longrightarrow> held ag = []"
  by (auto simp: initialize_agent_def held_def Let_def
      split: if_splits prod.splits option.splits)

lemma sub_held_store_agent:
  assumes "sub_held ags0 ags" and "held ag = []"
  shows "sub_held ags0 (store_agent ags k ag)"
proof (cases "k < length ags")
  case True
  then show ?thesis
    using sub_held_update[OF assms(1) True, of ag] assms(2) by (simp add: store_agent_def)
next
  case False
  then show ?thesis using assms(1) by (auto simp: store_agent_def sub_held_def nth_append)
qed

lemma make_agents_held:
  "make_agents R p ds pct thr limit ids = Inr p' \<Longrightarrow> sub_held ags0 (agents p)
   \<Longrightarrow> sub_held ags0 (agents p')"
proof (induction ids arbitrary: p)
  case Nil
  then show ?case by simp
next
  case (Cons new_id ids)
  obtain draw st1 where u: "random_uniform R (random_seed p + int new_id, 0) 0 1 = (draw, st1)"
    by (cases "random_uniform R (random_seed p + int new_id, 0) 0 1")
  from Cons.prems(1) u obtain ag st2 where
    i: "initialize_agent R st1 (random_seed p) ds (draw < pct) thr limit new_id
          (map c_name (attraction_list p)) (map ac_name (activity_list p)) = Inr (ag, st2)"
    and rec: "make_agents R (p\<lparr>agents := store_agent (agents p) new_id ag, random_state := st2\<rparr>)
                ds pct thr limit ids = Inr p'"
    by (auto simp: Let_def split: sum.splits)
  have "sub_held ags0 (agents (p\<lparr>agents := store_agent (agents p) new_id ag, random_state := st2\<rparr>))"
    using sub_held_store_agent[OF Cons.prems(2) initialize_agent_held[OF i]] by simp
  from Cons.IH[OF rec this] show ?case .
qed

lemma aligned_step_subseq:
  assumes "subseq new old"
  shows "aligned_step old new"
proof -
  have "new = map (\<lambda>(attraction, countdown). (attraction, countdown - 0)) new" by simp
  with assms show ?thesis
    unfolding aligned_step_def issued_to_def
    by (intro exI[of _ 0] exI[of _ "[]"] exI[of _ new]) simp
qed

lemma sub_held_aligned:
  "sub_held ags ags' \<Longrightarrow> k < length ags
   \<Longrightarrow> k < length ags' \<and> aligned_step (held (ags ! k)) (held (ags' ! k))"
  by (auto simp: sub_held_def aligned_step_subseq)

lemma apply_park_call_aligned:
  assumes "apply_park_call R p c = returns p'" and "agents_ok (agents p)" and "k < length (agents p)"
  shows "k < length (agents p') \<and> aligned_step (held (agents p ! k)) (held (agents p' ! k))"
proof (cases c)
  case (Generate_arrival_schedule arrival_seed daily_total perfect)
  with assms(1) have "agents p' = agents p"
    by (auto simp: lift_returns dest: generate_arrival_schedule_agents)
  with sub_held_aligned[OF sub_held_refl assms(3)] show ?thesis by simp
next
  case (Generate_agents ds pct thr limit)
  with assms(1) have "sub_held (agents p) (agents p')"
    by (auto simp: lift_returns generate_agents_def split: if_splits
        dest: make_agents_held[OF _ sub_held_refl])
  from sub_held_aligned[OF this assms(3)] show ?thesis .
next
  case Generate_attractions
  with assms(1) have "agents p' = agents p"
    by (auto simp: lift_returns generate_attractions_def Let_def split: sum.splits)
  with sub_held_aligned[OF sub_held_refl assms(3)] show ?thesis by simp
next
  case Generate_activities
  with assms(1) have "agents p' = agents p"
    by (auto simp: lift_returns generate_activities_def Let_def split: sum.splits)
  with sub_held_aligned[OF sub_held_refl assms(3)] show ?thesis by simp
next
  case Step_park
  with assms(1) have "park_step R p = returns p'" by simp
  from park_step_aligned[OF this assms(2,3)] show ?thesis .
qed

text \<open>
  C9. In every park reached from a new park by calls of its methods, no agent holds a pass
  for the same attraction twice, and every agent has as many return countdowns as passes.
  The entries stay aligned by index: whatever call comes next, every agent's passes keep
  their own countdowns. The pairs of pass and countdown at equal indices after the call are
  pairs from before the call, in the same order, with at most one new pair at the end for an
  attraction the agent held no pass for, and all countdowns lowered by the same 0 or 1
  (\<open>aligned_step\<close>). So a pass and its countdown are appended together
  (\<open>get_pass_held\<close>) and deleted at the same index (\<open>delete_pass_held\<close>).
\<close>

theorem passes_distinct_and_aligned:
  assumes "apply_park_calls R (new_park attraction_cs activity_cs seed st np) calls = returns p"
  shows "(\<forall>ag \<in> set (agents p).
            distinct (expedited_pass ag)
            \<and> length (expedited_pass ag) = length (expedited_return_time ag))
         \<and> (\<forall>c p' k. apply_park_call R p c = returns p' \<longrightarrow> k < length (agents p) \<longrightarrow>
               k < length (agents p')
               \<and> aligned_step (held (agents p ! k)) (held (agents p' ! k)))"
proof -
  have "agents_ok (agents (new_park attraction_cs activity_cs seed st np))"
    by (simp add: new_park_def agents_ok_def)
  from apply_park_calls_ok[OF assms this] have ok: "agents_ok (agents p)" .
  then have "\<forall>ag \<in> set (agents p).
            distinct (expedited_pass ag)
            \<and> length (expedited_pass ag) = length (expedited_return_time ag)"
    by (simp add: agents_ok_def list_all_iff passes_ok_def)
  moreover have "\<forall>c p' k. apply_park_call R p c = returns p' \<longrightarrow> k < length (agents p) \<longrightarrow>
               k < length (agents p')
               \<and> aligned_step (held (agents p ! k)) (held (agents p' ! k))"
    using apply_park_call_aligned[OF _ ok] by blast
  ultimately show ?thesis ..
qed


section \<open>An example run\<close>

text \<open>
  The first rider queues in minute 0 and boards; the second arrives in minute 1, finds a
  wait of 9 minutes and takes a pass. In minute 2 the second rider goes to the arcade and
  keeps the pass, whose countdown goes from 8 to 7.
\<close>

lemma alist_update_fresh: "k \<notin> fst ` set al \<Longrightarrow> AList.update k v al = al @ [(k, v)]"
  by (induction al) auto

lemma store_minutes_fresh:
  "distinct (map fst ms) \<Longrightarrow> (\<forall>m \<in> fst ` set ms. hour * 60 + int m \<notin> fst ` set sch)
   \<Longrightarrow> store_minutes sch hour ms = sch @ map (\<lambda>(m, a). (hour * 60 + int m, int a)) ms"
proof (induction ms arbitrary: sch)
  case Nil
  then show ?case by simp
next
  case (Cons x ms)
  obtain m a where x: "x = (m, a)" by (cases x)
  have fresh: "hour * 60 + int m \<notin> fst ` set sch" using Cons.prems(2) x by simp
  have "store_minutes (sch @ [(hour * 60 + int m, int a)]) hour ms
          = (sch @ [(hour * 60 + int m, int a)]) @ map (\<lambda>(m, a). (hour * 60 + int m, int a)) ms"
  proof (rule Cons.IH)
    show "distinct (map fst ms)" using Cons.prems(1) by simp
    show "\<forall>m' \<in> fst ` set ms. hour * 60 + int m' \<notin> fst ` set (sch @ [(hour * 60 + int m, int a)])"
      using Cons.prems x by (auto simp: image_iff)
  qed
  then show ?case by (simp add: x alist_update_fresh[OF fresh])
qed

lemma example_schedule_eq:
  "example_schedule =
     map (\<lambda>(m, a). (int m, int a)) (zip [0..<60] ([1, 1] @ replicate 58 0))
     @ map (\<lambda>(m, a). (60 + int m, int a)) (zip [0..<60] (replicate 60 0))"
proof -
  have d: "distinct (map fst (zip [0..<60] xs))" for xs :: "nat list"
    unfolding map_fst_zip_take by (rule distinct_take) (rule distinct_upt)
  have one: "store_minutes [] 0 (zip [0..<60] ([1, 1] @ replicate 58 0))
               = map (\<lambda>(m, a). (int m, int a)) (zip [0..<60] ([1, 1] @ replicate 58 0))"
    using store_minutes_fresh[where hour = 0 and sch = "[]", OF d] by simp
  have "\<forall>m \<in> fst ` set (zip [0..<60] (replicate 60 (0::nat))).
          1 * 60 + int m \<notin> fst ` set (map (\<lambda>(m, a). (int m, int a)) (zip [0..<60] ([1, 1] @ replicate 58 0)))"
    by (auto simp del: upt_rec_numeral replicate.simps dest!: set_zip_leftD)
  from store_minutes_fresh[OF d this] show ?thesis
    unfolding example_schedule_def one by simp
qed

lemma example_schedule_facts:
  "dict_get example_schedule 0 = Inr 1" "dict_get example_schedule 1 = Inr 1"
  "sum_list (map snd example_schedule) = 2"
  unfolding example_schedule_eq dict_get_def
  by (simp_all add: eval_nat_numeral)


lemma example_arrival_schedule:
  "generate_arrival_schedule (example_random 0) example_park example_day 2 True
     = Inr (example_park\<lparr>schedule := example_schedule, park_close := Some 60, random_state := (7, 0)\<rparr>)"
proof -
  have s: "sample_hours (example_random 0) example_park 2 [(0, ''9am'', 100), (Suc 0, ''10am'', 0)]
             = Inr (example_park\<lparr>park_close := Some 60, schedule := example_schedule\<rparr>)"
    unfolding example_schedule_def
    by (simp add: example_park_def new_park_def example_random_def
        del: store_minutes.simps upt_rec_numeral replicate.simps)
  show ?thesis
    unfolding generate_arrival_schedule_def example_day_def
    by (simp add: s example_schedule_facts del: sample_hours.simps)
       (simp add: example_park_def new_park_def)
qed


lemma example_generated:
  "apply_park_calls (example_random 0)
     (example_park\<lparr>schedule := example_schedule, park_close := Some 60, random_state := (7, 0)\<rparr>)
     [Generate_attractions, Generate_activities, Generate_agents [(''ride_enthusiast'', 100)] 1 5 1]
   = returns example_park_open"
  by (simp add: bind_result_def lift_def returns_def generate_attractions_def generate_activities_def
      generate_agents_def example_schedule_facts example_park_def new_park_def example_ride_def
      new_attraction_def new_activity_def example_arcade_def example_park_open_def
      example_rider_def initialize_agent_def random_uniform_def example_random_def
      select_behavior_archetype_def select_age_class_def BEHAVIOR_ARCHETYPE_PARAMETERS_def
      age_class_sum_ok_def store_agent_def dict_keys_def py_int_def Let_def eval_nat_numeral)


lemma example_schedule_map_of:
  "map_of example_schedule 0 = Some 1" "map_of example_schedule 1 = Some 1"
  using example_schedule_facts(1,2) by (simp_all add: dict_get_def split: option.splits)

lemmas step_defs =
  park_step_def release_arrivals_def dict_get_def example_schedule_map_of bind_result_def lift_def returns_def raises_def
  get_idle_agent_ids_def agent_at_def arrive_at_park_def
  make_state_change_decision_def decide_to_leave_park_def make_attraction_activity_decision_def
  decide_attraction_or_activity_def age_class_filter_def select_attraction_decision_def
  select_attraction_loop.simps select_activity_decision_def random_uniform_def
  get_wait_time_def get_exp_wait_time_def wait_time_loop.simps exp_wait_time_loop.simps
  update_park_state_def return_passes.simps enter_queue_def begin_activity_def get_pass_def
  assign_expedited_return_time_def leave_park_def add_to_queue_def add_to_exp_queue_def
  remove_pass_def add_to_activity_def drawn_stay_time_def
  attraction_step_def refresh_passes_def max_exp_queue_agents_def max_queue_agents_def
  expedited_agents_to_load_def agents_to_load_def slice_to_def slice_from_def py_int_def
  leave_activity_to_board_def agent_boarded_attraction_def agent_exited_attraction_def
  agent_exited_activity_def force_exit_def activity_step_def
  agent_pass_time_def attraction_pass_time_def attraction_store_history_def
  activity_pass_time_def activity_store_history_def calculate_total_active_agents_def
  Let_def

lemmas example_defs =
  example_park_open_def example_park_def new_park_def example_rider_def
  example_ride_def initialize_attraction_def example_arcade_def initialize_activity_def
  example_random_def

lemma apply_park_calls_append:
  "apply_park_calls R p (cs @ ds) = bind_result (apply_park_calls R p cs) (\<lambda>p'. apply_park_calls R p' ds)"
  by (induction cs arbitrary: p) (auto simp: bind_result_def returns_def split: option.splits sum.splits)

lemma example_first_step: "park_step (example_random 0) example_park_open = returns example_park_riding"
  by (simp add: step_defs example_defs example_park_riding_def)

lemma example_second_step:
  "park_step (example_random 0) example_park_riding = returns example_park_holding"
  by (simp add: step_defs example_defs example_park_riding_def example_park_holding_def
      numeral_2_eq_2)

lemma example_schedule_third: "map_of example_schedule 2 = Some 0"
  unfolding example_schedule_eq by (simp add: eval_nat_numeral)

lemma example_third_step:
  "\<exists>p'. park_step (example_random 0) example_park_holding = returns p'
        \<and> held (agents p' ! 1) = [(''Coaster'', 7)]"
  by (simp add: step_defs example_schedule_third example_defs example_park_riding_def
      example_park_holding_def held_def)

lemma bind_result_unit: "bind_result (returns x) f = f x"
  by (simp add: bind_result_def returns_def)

lemma bind_result_returns_right: "bind_result m (\<lambda>x. returns x) = m"
  by (simp add: bind_result_def returns_def split: option.splits sum.splits)

lemma example_park_run:
  "apply_park_calls (example_random 0) example_park example_park_calls = returns example_park_holding"
proof -
  have a: "apply_park_calls (example_random 0) example_park [Generate_arrival_schedule example_day 2 True]
             = returns (example_park\<lparr>schedule := example_schedule, park_close := Some 60,
                          random_state := (7, 0)\<rparr>)"
    by (simp add: example_arrival_schedule bind_result_def lift_def returns_def)
  have b: "apply_park_calls (example_random 0) example_park_open [Step_park, Step_park]
             = park_step (example_random 0) example_park_riding"
    by (simp add: example_first_step bind_result_unit bind_result_returns_right)
  have c: "example_park_calls =
          [Generate_arrival_schedule example_day 2 True]
          @ [Generate_attractions, Generate_activities, Generate_agents [(''ride_enthusiast'', 100)] 1 5 1]
          @ [Step_park, Step_park]"
    by (simp add: example_park_calls_def)
  have "apply_park_calls (example_random 0) example_park example_park_calls
          = park_step (example_random 0) example_park_riding"
    unfolding c apply_park_calls_append a example_generated b bind_result_unit by (rule refl)
  with example_second_step show ?thesis by (simp only:)
qed

lemma example_holding_agents:
  "map expedited_pass (agents example_park_holding) = [[], [''Coaster'']]"
  "map expedited_return_time (agents example_park_holding) = [[], [8]]"
  "held (agents example_park_holding ! 1) = [(''Coaster'', 8)]"
  "(1::nat) < length (agents example_park_holding)"
  by (simp_all add: example_park_holding_def example_rider_def held_def)

theorem passes_distinct_and_aligned_witness:
  "\<exists>p'. apply_park_calls (example_random 0) example_park example_park_calls
           = returns example_park_holding
        \<and> map expedited_pass (agents example_park_holding) = [[], [''Coaster'']]
        \<and> map expedited_return_time (agents example_park_holding) = [[], [8]]
        \<and> list_all (\<lambda>ag. distinct (expedited_pass ag)
                          \<and> length (expedited_pass ag) = length (expedited_return_time ag))
             (agents example_park_holding)
        \<and> apply_park_call (example_random 0) example_park_holding Step_park = returns p'
        \<and> (1::nat) < length (agents example_park_holding)
        \<and> held (agents example_park_holding ! 1) = [(''Coaster'', 8)]
        \<and> held (agents p' ! 1) = [(''Coaster'', 7)]
        \<and> aligned_step (held (agents example_park_holding ! 1)) (held (agents p' ! 1))"
proof -
  note t = passes_distinct_and_aligned[OF example_park_run[unfolded example_park_def]]
  from example_third_step obtain p' where
    s: "park_step (example_random 0) example_park_holding = returns p'"
    and h: "held (agents p' ! 1) = [(''Coaster'', 7)]"
    by (elim exE conjE)
  from s have c: "apply_park_call (example_random 0) example_park_holding Step_park = returns p'"
    by simp
  from t have "list_all (\<lambda>ag. distinct (expedited_pass ag)
                          \<and> length (expedited_pass ag) = length (expedited_return_time ag))
             (agents example_park_holding)"
    by (simp add: list_all_iff)
  moreover from t c example_holding_agents(4)
  have "aligned_step (held (agents example_park_holding ! 1)) (held (agents p' ! 1))"
    by blast
  ultimately show ?thesis
    using example_park_run example_holding_agents c h
    by (intro exI[of _ p']) (simp only: simp_thms)
qed

section \<open>Properties of the closing time\<close>


























end
